theory Spec2Isabelle
  imports Complex_Main
begin

section \<open>JSON values and the Python operations the proxy applies to them\<close>

text \<open>
  Every value the proxy handles comes out of a JSON parser (\<open>request.json()\<close>,
  \<open>response.json()\<close>, \<open>json.loads\<close>), so the model works on JSON trees. A Python
  \<open>dict\<close> is an association list in insertion order; the parser produces each key once.
  \<open>JFloat\<close> carries the exact value of a finite float.
\<close>

datatype json =
    JNull
  | JBool bool
  | JInt int
  | JFloat rat
  | JStr string
  | JList "json list"
  | JDict "(string \<times> json) list"

text \<open>The exceptions the translated code can raise.\<close>

datatype py_error = KeyError | IndexError | TypeError | AttributeError | JSONDecodeError

text \<open>Sequencing of fallible steps: the first exception ends the computation.\<close>

definition bind_err :: "py_error + 'a \<Rightarrow> ('a \<Rightarrow> py_error + 'b) \<Rightarrow> py_error + 'b" where
  "bind_err m f = (case m of Inl e \<Rightarrow> Inl e | Inr v \<Rightarrow> f v)"

text \<open>\<open>d.get(k, default)\<close> on a value known to be a dict.\<close>

definition dict_get :: "(string \<times> json) list \<Rightarrow> string \<Rightarrow> json \<Rightarrow> json" where
  "dict_get kvs k d = (case map_of kvs k of Some v \<Rightarrow> v | None \<Rightarrow> d)"

text \<open>\<open>x.get(k, default)\<close> on any value: only a dict has the method.\<close>

definition attr_get :: "json \<Rightarrow> string \<Rightarrow> json \<Rightarrow> py_error + json" where
  "attr_get x k d = (case x of JDict kvs \<Rightarrow> Inr (dict_get kvs k d) | _ \<Rightarrow> Inl AttributeError)"

text \<open>\<open>x[k]\<close> with a string key: KeyError on a dict without the key, TypeError on
  anything that is not a dict.\<close>

definition subscript :: "json \<Rightarrow> string \<Rightarrow> py_error + json" where
  "subscript x k =
     (case x of
        JDict kvs \<Rightarrow> (case map_of kvs k of Some v \<Rightarrow> Inr v | None \<Rightarrow> Inl KeyError)
      | _ \<Rightarrow> Inl TypeError)"

text \<open>\<open>x[0]\<close>: the first element of a list or the first character of a string; a dict
  parsed from JSON has string keys only, so the key \<open>0\<close> is never found.\<close>

definition first_item :: "json \<Rightarrow> py_error + json" where
  "first_item x =
     (case x of
        JList [] \<Rightarrow> Inl IndexError
      | JList (y # ys) \<Rightarrow> Inr y
      | JStr [] \<Rightarrow> Inl IndexError
      | JStr (c # cs) \<Rightarrow> Inr (JStr [c])
      | JDict kvs \<Rightarrow> Inl KeyError
      | _ \<Rightarrow> Inl TypeError)"

text \<open>Truth value of a JSON value in a Python condition.\<close>

fun truthy :: "json \<Rightarrow> bool" where
  "truthy JNull = False"
| "truthy (JBool b) = b"
| "truthy (JInt i) = (i \<noteq> 0)"
| "truthy (JFloat r) = (r \<noteq> 0)"
| "truthy (JStr s) = (s \<noteq> [])"
| "truthy (JList xs) = (xs \<noteq> [])"
| "truthy (JDict kvs) = (kvs \<noteq> [])"

text \<open>\<open>for item in x\<close>: a list yields its elements, a string its characters, a dict
  its keys; anything else is not iterable.\<close>

fun py_iter :: "json \<Rightarrow> py_error + json list" where
  "py_iter (JList xs) = Inr xs"
| "py_iter (JStr s) = Inr (map (\<lambda>c. JStr [c]) s)"
| "py_iter (JDict kvs) = Inr (map (\<lambda>(k, v). JStr k) kvs)"
| "py_iter v = Inl TypeError"

text \<open>Whether a value can be a dict key: lists and dicts are unhashable.\<close>

fun hashable :: "json \<Rightarrow> bool" where
  "hashable (JList xs) = False"
| "hashable (JDict kvs) = False"
| "hashable v = True"

text \<open>Equality of dict keys: \<open>True == 1 == 1.0\<close> in Python, so numbers and booleans are
  compared by value; everything else structurally.\<close>

fun num_val :: "json \<Rightarrow> rat option" where
  "num_val (JBool b) = Some (if b then 1 else 0)"
| "num_val (JInt i) = Some (of_int i)"
| "num_val (JFloat r) = Some r"
| "num_val v = None"

definition py_eq :: "json \<Rightarrow> json \<Rightarrow> bool" where
  "py_eq a b =
     (case num_val a of
        Some x \<Rightarrow> (case num_val b of Some y \<Rightarrow> x = y | None \<Rightarrow> False)
      | None \<Rightarrow> (case num_val b of Some y \<Rightarrow> False | None \<Rightarrow> a = b))"

section \<open>Helper functions of the proxy\<close>

text \<open>\<open>map_stop_reason\<close> (lines 47-55). The table lookup hashes its key, so a non-empty
  list or dict raises TypeError.\<close>

definition map_stop_reason :: "json \<Rightarrow> py_error + string" where
  "map_stop_reason finish_reason =
     (if \<not> truthy finish_reason then Inr ''end_turn''
      else if \<not> hashable finish_reason then Inl TypeError
      else if finish_reason = JStr ''tool_calls'' then Inr ''tool_use''
      else if finish_reason = JStr ''stop'' then Inr ''end_turn''
      else if finish_reason = JStr ''length'' then Inr ''max_tokens''
      else Inr ''end_turn'')"

text \<open>\<open>remove_uri_format\<close> (lines 67-75).\<close>

fun remove_uri_format :: "json \<Rightarrow> json" where
  "remove_uri_format (JDict kvs) =
     (if dict_get kvs ''type'' JNull = JStr ''string'' \<and> dict_get kvs ''format'' JNull = JStr ''uri''
      then JDict (filter (\<lambda>(k, v). k \<noteq> ''format'') kvs)
      else JDict (map (\<lambda>(k, v). (k, remove_uri_format v)) kvs))"
| "remove_uri_format (JList xs) = JList (map remove_uri_format xs)"
| "remove_uri_format v = v"

text \<open>A schema node that matches and has a matching node among its children.\<close>

definition nested_uri_schema :: json where
  "nested_uri_schema =
     JDict [(''type'', JStr ''string''), (''format'', JStr ''uri''),
            (''anyOf'', JList [JDict [(''type'', JStr ''string''), (''format'', JStr ''uri'')]])]"


section \<open>Configuration\<close>

text \<open>The three model names are read from the environment; \<open>os.getenv(..) or d\<close>
  falls back to \<open>d\<close> when the variable is unset or empty (lines 31-33).\<close>

record config =
  env_MODEL :: "string option"
  env_REASONING_MODEL :: "string option"
  env_COMPLETION_MODEL :: "string option"

definition getenv_or :: "string option \<Rightarrow> string \<Rightarrow> string" where
  "getenv_or v d = (case v of None \<Rightarrow> d | Some s \<Rightarrow> (if s = [] then d else s))"

definition DEFAULT_MODEL :: "config \<Rightarrow> string" where
  "DEFAULT_MODEL cfg = getenv_or (env_MODEL cfg) ''my-model''"

definition REASONING_MODEL :: "config \<Rightarrow> string" where
  "REASONING_MODEL cfg = getenv_or (env_REASONING_MODEL cfg) (DEFAULT_MODEL cfg)"

definition COMPLETION_MODEL :: "config \<Rightarrow> string" where
  "COMPLETION_MODEL cfg = getenv_or (env_COMPLETION_MODEL cfg) (DEFAULT_MODEL cfg)"

section \<open>Request translation (\<open>messages_proxy\<close>, lines 86-154)\<close>

text \<open>\<open>normalize_content\<close> (lines 58-64). The generator handed to \<open>join\<close> is consumed
  first (\<open>item.get\<close> raises AttributeError on an item that is not a dict), then
  \<open>join\<close> raises TypeError on a part that is not a string.\<close>

fun text_parts :: "json list \<Rightarrow> py_error + json list" where
  "text_parts [] = Inr []"
| "text_parts (item # items) =
     bind_err (attr_get item ''type'' JNull) (\<lambda>t.
     bind_err (attr_get item ''text'' (JStr [])) (\<lambda>txt.
     bind_err (text_parts items) (\<lambda>rest.
       Inr (if t = JStr ''text'' then txt # rest else rest))))"

fun join_space :: "json list \<Rightarrow> py_error + string" where
  "join_space [] = Inr []"
| "join_space [p] = (case p of JStr s \<Rightarrow> Inr s | _ \<Rightarrow> Inl TypeError)"
| "join_space (p # ps) =
     (case p of
        JStr s \<Rightarrow> bind_err (join_space ps) (\<lambda>r. Inr (s @ '' '' @ r))
      | _ \<Rightarrow> Inl TypeError)"

definition normalize_content :: "json \<Rightarrow> py_error + json" where
  "normalize_content content =
     (case content of
        JStr s \<Rightarrow> Inr (JStr s)
      | JList items \<Rightarrow>
          bind_err (text_parts items) (\<lambda>parts.
          bind_err (join_space parts) (\<lambda>s. Inr (JStr s)))
      | _ \<Rightarrow> Inr JNull)"

text \<open>One entry of the \<open>tool_calls\<close> comprehension (lines 105-109); \<open>dumps\<close> stands
  for \<open>json.dumps\<close>, which cannot fail on a value that was parsed from JSON.\<close>

definition tool_call_entry :: "(json \<Rightarrow> string) \<Rightarrow> json \<Rightarrow> py_error + json" where
  "tool_call_entry dumps item =
     bind_err (subscript item ''id'') (\<lambda>i.
     bind_err (subscript item ''name'') (\<lambda>n.
     bind_err (subscript item ''input'') (\<lambda>inp.
       Inr (JDict [(''type'', JStr ''function''), (''id'', i),
                   (''function'', JDict [(''name'', n), (''arguments'', JStr (dumps inp))])]))))"

fun tool_calls_of :: "(json \<Rightarrow> string) \<Rightarrow> json list \<Rightarrow> py_error + json list" where
  "tool_calls_of dumps [] = Inr []"
| "tool_calls_of dumps (item # items) =
     bind_err (attr_get item ''type'' JNull) (\<lambda>t.
       if t = JStr ''tool_use''
       then bind_err (tool_call_entry dumps item) (\<lambda>e.
            bind_err (tool_calls_of dumps items) (\<lambda>r. Inr (e # r)))
       else tool_calls_of dumps items)"

text \<open>The loop of lines 124-132: the list \<open>messages\<close> grows by one \<open>tool\<close> message
  for each \<open>tool_result\<close> block.\<close>

fun append_tool_results :: "json list \<Rightarrow> json list \<Rightarrow> py_error + json list" where
  "append_tool_results messages [] = Inr messages"
| "append_tool_results messages (item # items) =
     bind_err (attr_get item ''type'' JNull) (\<lambda>t.
       if t = JStr ''tool_result''
       then bind_err (attr_get item ''content'' (JStr [])) (\<lambda>c.
            bind_err (attr_get item ''tool_use_id'' JNull) (\<lambda>u.
              append_tool_results
                (messages @ [JDict [(''role'', JStr ''tool''), (''content'', c), (''tool_call_id'', u)]])
                items))
       else append_tool_results messages items)"

text \<open>The body of the loop over the inbound messages (lines 99-132), on the list
  \<open>messages\<close> built so far.\<close>

definition translate_message :: "(json \<Rightarrow> string) \<Rightarrow> json list \<Rightarrow> json \<Rightarrow> py_error + json list" where
  "translate_message dumps messages msg =
     bind_err (attr_get msg ''role'' JNull) (\<lambda>role.
     bind_err (attr_get msg ''content'' JNull) (\<lambda>content.
     bind_err (normalize_content content) (\<lambda>normalized_text.
     bind_err (case content of JList items \<Rightarrow> tool_calls_of dumps items | _ \<Rightarrow> Inr []) (\<lambda>tool_calls.
       let new_msg = [(''role'', role)]
                     @ (if truthy normalized_text then [(''content'', normalized_text)] else [])
                     @ (if tool_calls \<noteq> [] then [(''tool_calls'', JList tool_calls)] else []);
           messages1 = (if truthy (dict_get new_msg ''content'' JNull)
                           \<or> truthy (dict_get new_msg ''tool_calls'' JNull)
                        then messages @ [JDict new_msg] else messages)
       in (case content of
             JList items \<Rightarrow> append_tool_results messages1 items
           | _ \<Rightarrow> Inr messages1)))))"

fun translate_messages :: "(json \<Rightarrow> string) \<Rightarrow> json list \<Rightarrow> json list \<Rightarrow> py_error + json list" where
  "translate_messages dumps messages [] = Inr messages"
| "translate_messages dumps messages (msg # msgs) =
     bind_err (translate_message dumps messages msg) (\<lambda>messages'.
       translate_messages dumps messages' msgs)"

text \<open>The \<open>tools\<close> comprehension (lines 134-144).\<close>

definition tool_entry :: "json \<Rightarrow> py_error + json" where
  "tool_entry tool =
     bind_err (subscript tool ''name'') (\<lambda>n.
     bind_err (subscript tool ''description'') (\<lambda>d.
     bind_err (subscript tool ''input_schema'') (\<lambda>s.
       Inr (JDict [(''type'', JStr ''function''),
                   (''function'', JDict [(''name'', n), (''description'', d),
                                          (''parameters'', remove_uri_format s)])]))))"

fun tools_of :: "json list \<Rightarrow> py_error + json list" where
  "tools_of [] = Inr []"
| "tools_of (tool # tools) =
     bind_err (tool_entry tool) (\<lambda>e.
     bind_err (tools_of tools) (\<lambda>r. Inr (e # r)))"

text \<open>The system message (lines 93-96).\<close>

definition system_messages :: "json \<Rightarrow> py_error + json list" where
  "system_messages payload =
     (case payload of
        JDict kvs \<Rightarrow>
          (case map_of kvs ''system'' of
             None \<Rightarrow> Inr []
           | Some s \<Rightarrow>
               bind_err (normalize_content s) (\<lambda>system_content.
                 Inr (if truthy system_content
                      then [JDict [(''role'', JStr ''system''), (''content'', system_content)]]
                      else [])))
      | _ \<Rightarrow> Inl TypeError)"

text \<open>The outbound request built from the inbound \<open>payload\<close> (lines 87-154), or the
  exception that the handler's \<open>except\<close> clause catches.\<close>

definition translate_request :: "config \<Rightarrow> (json \<Rightarrow> string) \<Rightarrow> json \<Rightarrow> py_error + json" where
  "translate_request cfg dumps payload =
     bind_err (attr_get payload ''stream'' (JBool False)) (\<lambda>is_stream.
     bind_err (system_messages payload) (\<lambda>messages0.
     bind_err (attr_get payload ''messages'' (JList [])) (\<lambda>ms.
     bind_err (py_iter ms) (\<lambda>msgs.
     bind_err (translate_messages dumps messages0 msgs) (\<lambda>messages.
     bind_err (attr_get payload ''tools'' (JList [])) (\<lambda>ts.
     bind_err (py_iter ts) (\<lambda>tl.
     bind_err (tools_of tl) (\<lambda>tools.
     bind_err (attr_get payload ''thinking'' JNull) (\<lambda>thinking.
     bind_err (attr_get payload ''max_tokens'' (JInt 4096)) (\<lambda>max_tokens.
     bind_err (attr_get payload ''temperature'' (JFloat 1)) (\<lambda>temperature.
       Inr (JDict ([(''model'', JStr (if truthy thinking then REASONING_MODEL cfg
                                       else COMPLETION_MODEL cfg)),
                    (''messages'', JList messages),
                    (''max_tokens'', max_tokens),
                    (''temperature'', temperature),
                    (''stream'', is_stream)]
                   @ (if tools \<noteq> [] then [(''tools'', JList tools)] else []))))))))))))))"

section \<open>Non-streaming response translation (\<open>handle_non_stream\<close>, lines 186-217)\<close>








section \<open>Streaming translation (\<open>stream_generator\<close>, lines 220-343)\<close>

text \<open>The events handed to \<open>sse_pack\<close>, with the fields that vary.\<close>

datatype content_block = TextBlock | ToolUseBlock json json

datatype block_delta = TextDelta json | InputJsonDelta string

datatype event =
    MessageStart string json
  | Ping
  | ContentBlockStart json content_block
  | ContentBlockDelta json block_delta
  | ContentBlockStop json
  | MessageDelta string json
  | MessageStop

text \<open>What lines 255-267 make of one line of the backend's reply: a line without the
  \<open>data:\<close> prefix is skipped, the terminator \<open>[DONE]\<close> ends the loop, a payload that
  \<open>json.loads\<close> refuses is skipped, any other payload is a parsed chunk.\<close>

datatype line = NotData | Done | Unparsable | Parsed json

record accumulator =
  acc_id :: json
  acc_name :: json
  acc_args :: string

record stream_state =
  text_block_started :: bool
  tool_call_accumulators :: "(json \<times> accumulator) list"
  usage :: json
  last_chunk :: json

definition initial_state :: stream_state where
  "initial_state =
     \<lparr>text_block_started = False, tool_call_accumulators = [], usage = JDict [],
      last_chunk = JDict []\<rparr>"

text \<open>The keys of \<open>tool_call_accumulators\<close>, in insertion order.\<close>

definition keys :: "stream_state \<Rightarrow> json list" where
  "keys st = map fst (tool_call_accumulators st)"

text \<open>\<open>idx in tool_call_accumulators\<close>, for a hashable \<open>idx\<close>.\<close>

definition has_key :: "(json \<times> accumulator) list \<Rightarrow> json \<Rightarrow> bool" where
  "has_key accs idx = list_ex (\<lambda>(k, a). py_eq k idx) accs"

text \<open>\<open>tool_call_accumulators[idx]['args'] += arg_chunk\<close>.\<close>

fun append_args :: "(json \<times> accumulator) list \<Rightarrow> json \<Rightarrow> string \<Rightarrow> (json \<times> accumulator) list" where
  "append_args [] idx s = []"
| "append_args ((k, a) # accs) idx s =
     (if py_eq k idx then (k, a\<lparr>acc_args := acc_args a @ s\<rparr>) # accs
      else (k, a) # append_args accs idx s)"

text \<open>One element of \<open>delta['tool_calls']\<close> (lines 294-324): the events it yields, and
  the state after it or the exception that ends the generator.\<close>

definition process_tool_call :: "stream_state \<Rightarrow> json \<Rightarrow> event list \<times> (py_error + stream_state)" where
  "process_tool_call st tool_call_delta =
     (case subscript tool_call_delta ''index'' of
        Inl e \<Rightarrow> ([], Inl e)
      | Inr idx \<Rightarrow>
          if \<not> hashable idx then ([], Inl TypeError)
          else
            (case (if has_key (tool_call_accumulators st) idx then Inr ([], st)
                   else bind_err (attr_get tool_call_delta ''function'' (JDict [])) (\<lambda>func_info.
                        bind_err (attr_get tool_call_delta ''id'' (JStr [])) (\<lambda>i.
                        bind_err (attr_get func_info ''name'' (JStr [])) (\<lambda>n.
                          Inr ([ContentBlockStart idx (ToolUseBlock i n)],
                               st\<lparr>tool_call_accumulators := tool_call_accumulators st
                                    @ [(idx, \<lparr>acc_id = i, acc_name = n, acc_args = []\<rparr>)]\<rparr>))))) of
               Inl e \<Rightarrow> ([], Inl e)
             | Inr (started, st1) \<Rightarrow>
                 (case bind_err (attr_get tool_call_delta ''function'' (JDict [])) (\<lambda>f.
                         attr_get f ''arguments'' (JStr [])) of
                    Inl e \<Rightarrow> (started, Inl e)
                  | Inr arg_chunk \<Rightarrow>
                      if \<not> truthy arg_chunk then (started, Inr st1)
                      else
                        (case arg_chunk of
                           JStr s \<Rightarrow>
                             (started @ [ContentBlockDelta idx (InputJsonDelta s)],
                              Inr (st1\<lparr>tool_call_accumulators :=
                                         append_args (tool_call_accumulators st1) idx s\<rparr>))
                         | _ \<Rightarrow> (started, Inl TypeError)))))"

fun process_tool_calls :: "stream_state \<Rightarrow> json list \<Rightarrow> event list \<times> (py_error + stream_state)" where
  "process_tool_calls st [] = ([], Inr st)"
| "process_tool_calls st (tc # tcs) =
     (case process_tool_call st tc of
        (evs, Inl e) \<Rightarrow> (evs, Inl e)
      | (evs, Inr st1) \<Rightarrow>
          (case process_tool_calls st1 tcs of (evs', r) \<Rightarrow> (evs @ evs', r)))"

text \<open>The text part of a delta (lines 276-290).\<close>

definition process_text :: "stream_state \<Rightarrow> json \<Rightarrow> event list \<times> stream_state" where
  "process_text st content =
     (if truthy content
      then ((if text_block_started st then [] else [ContentBlockStart (JInt 0) TextBlock])
              @ [ContentBlockDelta (JInt 0) (TextDelta content)],
            st\<lparr>text_block_started := True\<rparr>)
      else ([], st))"

text \<open>The head of the loop body for a parsed chunk (lines 264-272): the chunk is kept
  as the last one, its usage replaces the stored one if truthy, and the delta of its
  first choice is taken.\<close>

definition chunk_delta :: "stream_state \<Rightarrow> json \<Rightarrow> py_error + (stream_state \<times> json)" where
  "chunk_delta st0 chunk =
     (let st = st0\<lparr>last_chunk := chunk\<rparr> in
      bind_err (attr_get chunk ''usage'' JNull) (\<lambda>u.
      bind_err (attr_get chunk ''choices'' (JList [JDict []])) (\<lambda>choices.
      bind_err (first_item choices) (\<lambda>choice.
      bind_err (attr_get choice ''delta'' (JDict [])) (\<lambda>delta.
        Inr (if truthy u then st\<lparr>usage := u\<rparr> else st, delta))))))"

text \<open>The rest of the body for a delta that is not empty (lines 276-324).\<close>

definition process_delta :: "stream_state \<Rightarrow> json \<Rightarrow> event list \<times> (py_error + stream_state)" where
  "process_delta st delta =
     (case attr_get delta ''content'' JNull of
        Inl e \<Rightarrow> ([], Inl e)
      | Inr content \<Rightarrow>
          (case process_text st content of
             (evs, st2) \<Rightarrow>
               (case attr_get delta ''tool_calls'' JNull of
                  Inl e \<Rightarrow> (evs, Inl e)
                | Inr tcs \<Rightarrow>
                    if \<not> truthy tcs then (evs, Inr st2)
                    else
                      (case py_iter tcs of
                         Inl e \<Rightarrow> (evs, Inl e)
                       | Inr items \<Rightarrow>
                           (case process_tool_calls st2 items of
                              (evs', r) \<Rightarrow> (evs @ evs', r))))))"

text \<open>One parsed chunk (lines 264-324).\<close>

definition process_chunk :: "stream_state \<Rightarrow> json \<Rightarrow> event list \<times> (py_error + stream_state)" where
  "process_chunk st chunk =
     (case chunk_delta st chunk of
        Inl e \<Rightarrow> ([], Inl e)
      | Inr (st1, delta) \<Rightarrow>
          if \<not> truthy delta then ([], Inr st1) else process_delta st1 delta)"

text \<open>The loop over the backend's lines (lines 254-324); it ends at \<open>[DONE]\<close> or at
  the end of the reply.\<close>

fun process_lines :: "stream_state \<Rightarrow> line list \<Rightarrow> event list \<times> (py_error + stream_state)" where
  "process_lines st [] = ([], Inr st)"
| "process_lines st (NotData # ls) = process_lines st ls"
| "process_lines st (Done # ls) = ([], Inr st)"
| "process_lines st (Unparsable # ls) = process_lines st ls"
| "process_lines st (Parsed chunk # ls) =
     (case process_chunk st chunk of
        (evs, Inl e) \<Rightarrow> (evs, Inl e)
      | (evs, Inr st1) \<Rightarrow>
          (case process_lines st1 ls of (evs', r) \<Rightarrow> (evs @ evs', r)))"

text \<open>The closing events (lines 326-343).\<close>

definition closing_stops :: "stream_state \<Rightarrow> event list" where
  "closing_stops st =
     (if tool_call_accumulators st \<noteq> []
      then map (\<lambda>(idx, a). ContentBlockStop idx) (tool_call_accumulators st)
      else if text_block_started st then [ContentBlockStop (JInt 0)]
      else [])"

definition finish :: "stream_state \<Rightarrow> event list \<times> py_error option" where
  "finish st =
     (case bind_err (attr_get (last_chunk st) ''choices'' (JList [JDict []])) (\<lambda>choices.
           bind_err (first_item choices) (\<lambda>choice.
           bind_err (attr_get choice ''finish_reason'' JNull) (\<lambda>finish_reason.
             map_stop_reason finish_reason))) of
        Inl e \<Rightarrow> ([], Some e)
      | Inr stop_reason \<Rightarrow>
          (case attr_get (usage st) ''completion_tokens'' (JInt 0) of
             Inl e \<Rightarrow> (closing_stops st, Some e)
           | Inr output_tokens \<Rightarrow>
               (closing_stops st @ [MessageDelta stop_reason output_tokens, MessageStop], None)))"

text \<open>The whole generator on the lines of a reply with a success status: the events it
  yields, and the exception that cut it short, if any. \<open>message_id\<close> is the identifier
  \<open>generate_message_id\<close> drew.\<close>

definition stream_generator :: "string \<Rightarrow> json \<Rightarrow> line list \<Rightarrow> event list \<times> py_error option" where
  "stream_generator message_id payload lines =
     (case subscript payload ''model'' of
        Inl e \<Rightarrow> ([], Some e)
      | Inr model \<Rightarrow>
          (case process_lines initial_state lines of
             (evs, Inl e) \<Rightarrow> ([MessageStart message_id model, Ping] @ evs, Some e)
           | (evs, Inr st) \<Rightarrow>
               (case finish st of
                  (evs', r) \<Rightarrow> ([MessageStart message_id model, Ping] @ evs @ evs', r))))"


section \<open>Requests that the translation accepts\<close>

text \<open>The shapes of an inbound request on which none of the steps of the translation
  raises. Nothing here asks for a \<open>role\<close>, a \<open>content\<close>, a text block's \<open>text\<close> or a
  tool result's \<open>content\<close> or \<open>tool_use_id\<close>: those are read with \<open>get\<close>.\<close>

definition succeeds :: "py_error + 'a \<Rightarrow> bool" where
  "succeeds m = (case m of Inl e \<Rightarrow> False | Inr v \<Rightarrow> True)"

definition is_str :: "json \<Rightarrow> bool" where
  "is_str j = (case j of JStr s \<Rightarrow> True | _ \<Rightarrow> False)"

definition is_dict :: "json \<Rightarrow> bool" where
  "is_dict j = (case j of JDict kvs \<Rightarrow> True | _ \<Rightarrow> False)"

definition has_type :: "string \<Rightarrow> json \<Rightarrow> bool" where
  "has_type t item = (case item of JDict kvs \<Rightarrow> dict_get kvs ''type'' JNull = JStr t | _ \<Rightarrow> False)"

definition has_keys :: "string list \<Rightarrow> json \<Rightarrow> bool" where
  "has_keys ks item = (case item of JDict kvs \<Rightarrow> list_all (\<lambda>k. map_of kvs k \<noteq> None) ks | _ \<Rightarrow> False)"

text \<open>A block of a content list: an object; a \<open>text\<close> block's text, if present, is a string.\<close>

definition text_block_ok :: "json \<Rightarrow> bool" where
  "text_block_ok item =
     (case item of
        JDict kvs \<Rightarrow> (if has_type ''text'' item then is_str (dict_get kvs ''text'' (JStr [])) else True)
      | _ \<Rightarrow> False)"

text \<open>A \<open>tool_use\<close> block has an \<open>id\<close>, a \<open>name\<close> and an \<open>input\<close>.\<close>

definition tool_use_ok :: "json \<Rightarrow> bool" where
  "tool_use_ok item =
     (if has_type ''tool_use'' item then has_keys [''id'', ''name'', ''input''] item else True)"


definition message_ok :: "json \<Rightarrow> bool" where
  "message_ok msg =
     (case msg of
        JDict kvs \<Rightarrow>
          (case dict_get kvs ''content'' JNull of
             JList items \<Rightarrow> list_all (\<lambda>item. text_block_ok item \<and> tool_use_ok item) items
           | _ \<Rightarrow> True)
      | _ \<Rightarrow> False)"

definition tool_ok :: "json \<Rightarrow> bool" where
  "tool_ok tool = has_keys [''name'', ''description'', ''input_schema''] tool"





section \<open>Tool-call arguments in a backend reply\<close>




section \<open>Reading an event sequence and a backend stream\<close>

text \<open>Membership in a list of dict keys, as Python compares keys.\<close>

definition key_mem :: "json list \<Rightarrow> json \<Rightarrow> bool" where
  "key_mem K i = list_ex (\<lambda>k. py_eq k i) K"

text \<open>The indices of the \<open>tool_use\<close> blocks a sequence of events opens, in order.\<close>

fun tool_start_indices :: "event list \<Rightarrow> json list" where
  "tool_start_indices [] = []"
| "tool_start_indices (ContentBlockStart idx (ToolUseBlock i n) # es) = idx # tool_start_indices es"
| "tool_start_indices (e # es) = tool_start_indices es"

text \<open>The events of one tool-call index \<open>i\<close>: the start of its \<open>tool_use\<close> block, its
  \<open>input_json_delta\<close>s, and its stop.\<close>

fun tool_start_for :: "json \<Rightarrow> event \<Rightarrow> bool" where
  "tool_start_for i (ContentBlockStart idx (ToolUseBlock a b)) = py_eq idx i"
| "tool_start_for i e = False"

fun json_delta_for :: "json \<Rightarrow> event \<Rightarrow> bool" where
  "json_delta_for i (ContentBlockDelta idx (InputJsonDelta s)) = py_eq idx i"
| "json_delta_for i e = False"

fun stop_for :: "json \<Rightarrow> event \<Rightarrow> bool" where
  "stop_for i (ContentBlockStop idx) = py_eq idx i"
| "stop_for i e = False"

definition tool_event_for :: "json \<Rightarrow> event \<Rightarrow> bool" where
  "tool_event_for i e = (tool_start_for i e \<or> json_delta_for i e \<or> stop_for i e)"

text \<open>A \<open>content_block_start\<close> with index \<open>i\<close>, whatever block it opens.\<close>

fun block_start_for :: "json \<Rightarrow> event \<Rightarrow> bool" where
  "block_start_for i (ContentBlockStart idx b) = py_eq idx i"
| "block_start_for i e = False"

text \<open>The index of an event that carries a \<open>tool_use\<close> block or an
  \<open>input_json_delta\<close>.\<close>

fun tool_event_index :: "event \<Rightarrow> json option" where
  "tool_event_index (ContentBlockStart idx (ToolUseBlock a b)) = Some idx"
| "tool_event_index (ContentBlockDelta idx (InputJsonDelta s)) = Some idx"
| "tool_event_index e = None"

fun is_start_or_delta :: "event \<Rightarrow> bool" where
  "is_start_or_delta (ContentBlockStart idx b) = True"
| "is_start_or_delta (ContentBlockDelta idx d) = True"
| "is_start_or_delta e = False"

text \<open>A \<open>content_block_stop\<close>, whatever its index.\<close>

fun is_stop :: "event \<Rightarrow> bool" where
  "is_stop (ContentBlockStop idx) = True"
| "is_stop e = False"

text \<open>The order the loop keeps, for the keys \<open>K\<close> opened so far: only starts and deltas
  are yielded, a \<open>tool_use\<close> block is started for an index that is not open, and an
  \<open>input_json_delta\<close> is for an index that is.\<close>

fun ordered_from :: "json list \<Rightarrow> event list \<Rightarrow> bool" where
  "ordered_from K [] = True"
| "ordered_from K (ContentBlockStart idx (ToolUseBlock a b) # es) =
     (\<not> key_mem K idx \<and> ordered_from (K @ [idx]) es)"
| "ordered_from K (ContentBlockStart idx TextBlock # es) = ordered_from K es"
| "ordered_from K (ContentBlockDelta idx (InputJsonDelta s) # es) =
     (key_mem K idx \<and> ordered_from K es)"
| "ordered_from K (ContentBlockDelta idx (TextDelta t) # es) = ordered_from K es"
| "ordered_from K (e # es) = False"

text \<open>The stops that close an event sequence: one per opened tool-call index, in the
  order of opening; the text block's only when no tool call was opened.\<close>

definition closing_indices :: "event list \<Rightarrow> json list" where
  "closing_indices body =
     (if tool_start_indices body \<noteq> [] then tool_start_indices body
      else if ContentBlockStart (JInt 0) TextBlock \<in> set body then [JInt 0]
      else [])"

text \<open>The chunks the loop parses: those before the terminator.\<close>

fun processed_chunks :: "line list \<Rightarrow> json list" where
  "processed_chunks [] = []"
| "processed_chunks (Done # ls) = []"
| "processed_chunks (Parsed chunk # ls) = chunk # processed_chunks ls"
| "processed_chunks (l # ls) = processed_chunks ls"

text \<open>The tool-call fragments in the delta of a chunk's first choice, and the indices
  they are tagged with.\<close>

definition first_choice_delta :: "json \<Rightarrow> json option" where
  "first_choice_delta chunk =
     (case chunk of
        JDict ckvs \<Rightarrow>
          (case dict_get ckvs ''choices'' (JList [JDict []]) of
             JList (JDict chkvs # others) \<Rightarrow> Some (dict_get chkvs ''delta'' (JDict []))
           | _ \<Rightarrow> None)
      | _ \<Rightarrow> None)"

definition delta_fragments :: "json \<Rightarrow> json list" where
  "delta_fragments delta =
     (case delta of
        JDict dkvs \<Rightarrow> (case dict_get dkvs ''tool_calls'' JNull of JList items \<Rightarrow> items | _ \<Rightarrow> [])
      | _ \<Rightarrow> [])"

definition chunk_fragments :: "json \<Rightarrow> json list" where
  "chunk_fragments chunk =
     (case first_choice_delta chunk of Some delta \<Rightarrow> delta_fragments delta | None \<Rightarrow> [])"

definition fragment_index :: "json \<Rightarrow> json option" where
  "fragment_index item = (case item of JDict kvs \<Rightarrow> map_of kvs ''index'' | _ \<Rightarrow> None)"

definition fragment_indices :: "json list \<Rightarrow> json list" where
  "fragment_indices items = List.map_filter fragment_index items"

definition stream_indices :: "line list \<Rightarrow> json list" where
  "stream_indices lines =
     concat (map (\<lambda>chunk. fragment_indices (chunk_fragments chunk)) (processed_chunks lines))"

text \<open>The chunk parsed last before the terminator (\<open>c\<close> if there is none), and the
  finish reason the closing code reads from a chunk.\<close>

fun last_parsed :: "json \<Rightarrow> line list \<Rightarrow> json" where
  "last_parsed c [] = c"
| "last_parsed c (Done # ls) = c"
| "last_parsed c (Parsed chunk # ls) = last_parsed chunk ls"
| "last_parsed c (l # ls) = last_parsed c ls"

definition finish_reason_of :: "json \<Rightarrow> py_error + json" where
  "finish_reason_of chunk =
     bind_err (attr_get chunk ''choices'' (JList [JDict []])) (\<lambda>choices.
     bind_err (first_item choices) (\<lambda>choice.
       attr_get choice ''finish_reason'' JNull))"

text \<open>In the spec's words: the last finish reason that is not absent, over the parsed
  chunks.\<close>

fun last_present_finish_reason :: "json \<Rightarrow> json list \<Rightarrow> json" where
  "last_present_finish_reason fr [] = fr"
| "last_present_finish_reason fr (chunk # chunks) =
     last_present_finish_reason
       (case finish_reason_of chunk of
          Inr v \<Rightarrow> (if v = JNull then fr else v)
        | Inl e \<Rightarrow> fr)
       chunks"

section \<open>The outbound messages, in the spec's words\<close>

text \<open>What the spec says the translation puts out for a request, written without the
  loop: the text of a content, the tool calls of its tool-use blocks, the message
  derived from an inbound message, and the tool messages that follow it.\<close>

definition field :: "json \<Rightarrow> string \<Rightarrow> json \<Rightarrow> json" where
  "field item k d = (case item of JDict kvs \<Rightarrow> dict_get kvs k d | _ \<Rightarrow> d)"




definition content_blocks :: "json \<Rightarrow> json list" where
  "content_blocks c = (case c of JList items \<Rightarrow> items | _ \<Rightarrow> [])"








section \<open>The endpoint\<close>



section \<open>Example inputs\<close>

definition example_config :: config where
  "example_config = \<lparr>env_MODEL = None, env_REASONING_MODEL = Some ''r1'', env_COMPLETION_MODEL = None\<rparr>"

text \<open>A stand-in for \<open>json.dumps\<close> that is right on the one value the examples encode.\<close>

definition example_dumps :: "json \<Rightarrow> string" where
  "example_dumps j = (if j = JDict [] then ''{}'' else ''null'')"

definition thinking_request :: json where
  "thinking_request =
     JDict [(''messages'', JList [JDict [(''role'', JStr ''user''), (''content'', JStr ''hi'')]]),
            (''thinking'', JDict [(''type'', JStr ''enabled'')])]"

definition thinking_request_out :: "(string \<times> json) list" where
  "thinking_request_out =
     [(''model'', JStr ''r1''),
      (''messages'', JList [JDict [(''role'', JStr ''user''), (''content'', JStr ''hi'')]]),
      (''max_tokens'', JInt 4096),
      (''temperature'', JFloat 1),
      (''stream'', JBool False)]"

text \<open>A configuration with every model name set, and a request without \<open>thinking\<close>
  that sets its own sampling parameters.\<close>

definition configured_config :: config where
  "configured_config =
     \<lparr>env_MODEL = Some ''d1'', env_REASONING_MODEL = Some ''r2'', env_COMPLETION_MODEL = Some ''c1''\<rparr>"

definition plain_request :: json where
  "plain_request =
     JDict [(''messages'', JList [JDict [(''role'', JStr ''user''), (''content'', JStr ''hi'')]]),
            (''max_tokens'', JInt 100),
            (''temperature'', JFloat 0)]"

definition plain_request_out :: "(string \<times> json) list" where
  "plain_request_out =
     [(''model'', JStr ''c1''),
      (''messages'', JList [JDict [(''role'', JStr ''user''), (''content'', JStr ''hi'')]]),
      (''max_tokens'', JInt 100),
      (''temperature'', JFloat 0),
      (''stream'', JBool False)]"















text \<open>A tool-call fragment with an index and nothing else.\<close>

definition fragment_without_id_or_name :: "(string \<times> json) list" where
  "fragment_without_id_or_name = [(''index'', JInt 1)]"

text \<open>Fragments with a new index and no id whose \<open>function\<close> is null, or whose
  \<open>arguments\<close> is a number.\<close>

definition fragment_with_null_function :: "(string \<times> json) list" where
  "fragment_with_null_function = [(''index'', JInt 1), (''function'', JNull)]"

definition fragment_with_number_arguments :: "(string \<times> json) list" where
  "fragment_with_number_arguments =
     [(''index'', JInt 1), (''function'', JDict [(''arguments'', JInt 5)])]"

text \<open>Chunks of a backend stream: a text delta, a tool-call delta with one fragment, and
  a chunk with an empty delta and a finish reason.\<close>

definition text_chunk :: "string \<Rightarrow> json" where
  "text_chunk s =
     JDict [(''choices'', JList [JDict [(''delta'', JDict [(''content'', JStr s)])]])]"

definition tool_chunk :: "int \<Rightarrow> string \<Rightarrow> json" where
  "tool_chunk i args =
     JDict [(''choices'', JList [JDict [(''delta'', JDict [(''tool_calls'', JList [
        JDict [(''index'', JInt i), (''id'', JStr ''call''),
               (''function'', JDict [(''name'', JStr ''f''), (''arguments'', JStr args)])]])])]])]"

definition finish_chunk :: "json \<Rightarrow> json" where
  "finish_chunk fr =
     JDict [(''choices'', JList [JDict [(''delta'', JDict []), (''finish_reason'', fr)]])]"

definition example_payload :: json where
  "example_payload = JDict [(''model'', JStr ''m1'')]"

text \<open>Text, then a tool call that the backend tags with index 0.\<close>

definition text_then_tool_stream :: "line list" where
  "text_then_tool_stream =
     [Parsed (text_chunk ''Hi''), Parsed (tool_chunk 0 ''{}''),
      Parsed (finish_chunk (JStr ''tool_calls'')), Done]"

definition text_then_tool_events :: "event list" where
  "text_then_tool_events =
     [MessageStart ''id1'' (JStr ''m1''), Ping,
      ContentBlockStart (JInt 0) TextBlock,
      ContentBlockDelta (JInt 0) (TextDelta (JStr ''Hi'')),
      ContentBlockStart (JInt 0) (ToolUseBlock (JStr ''call'') (JStr ''f'')),
      ContentBlockDelta (JInt 0) (InputJsonDelta ''{}''),
      ContentBlockStop (JInt 0),
      MessageDelta ''tool_use'' (JInt 0), MessageStop]"

text \<open>Two tool calls, index 2 opened before index 1, the second with its arguments in
  two fragments.\<close>

definition two_tools_stream :: "line list" where
  "two_tools_stream =
     [NotData, Parsed (tool_chunk 2 ''{}''), Unparsable, Parsed (tool_chunk 1 ''{''),
      Parsed (tool_chunk 1 ''}''), Parsed (finish_chunk (JStr ''tool_calls'')), Done]"

definition two_tools_events :: "event list" where
  "two_tools_events =
     [MessageStart ''id1'' (JStr ''m1''), Ping,
      ContentBlockStart (JInt 2) (ToolUseBlock (JStr ''call'') (JStr ''f'')),
      ContentBlockDelta (JInt 2) (InputJsonDelta ''{}''),
      ContentBlockStart (JInt 1) (ToolUseBlock (JStr ''call'') (JStr ''f'')),
      ContentBlockDelta (JInt 1) (InputJsonDelta ''{''),
      ContentBlockDelta (JInt 1) (InputJsonDelta ''}''),
      ContentBlockStop (JInt 2), ContentBlockStop (JInt 1),
      MessageDelta ''tool_use'' (JInt 0), MessageStop]"

text \<open>A finish reason, then a chunk without one.\<close>

definition length_then_absent_stream :: "line list" where
  "length_then_absent_stream =
     [Parsed (text_chunk ''Hi''), Parsed (finish_chunk (JStr ''length'')),
      Parsed (finish_chunk JNull), Done]"

definition length_then_absent_events :: "event list" where
  "length_then_absent_events =
     [MessageStart ''id1'' (JStr ''m1''), Ping,
      ContentBlockStart (JInt 0) TextBlock,
      ContentBlockDelta (JInt 0) (TextDelta (JStr ''Hi'')),
      ContentBlockStop (JInt 0),
      MessageDelta ''end_turn'' (JInt 0), MessageStop]"

text \<open>A tool call, then the usage chunk some backends send last, with no choices.\<close>

definition usage_chunk :: json where
  "usage_chunk =
     JDict [(''choices'', JList []), (''usage'', JDict [(''completion_tokens'', JInt 7)])]"

definition tool_then_usage_stream :: "line list" where
  "tool_then_usage_stream = [Parsed (tool_chunk 1 ''{}''), Parsed usage_chunk, Done]"

definition tool_then_usage_events :: "event list" where
  "tool_then_usage_events =
     [MessageStart ''id1'' (JStr ''m1''), Ping,
      ContentBlockStart (JInt 1) (ToolUseBlock (JStr ''call'') (JStr ''f'')),
      ContentBlockDelta (JInt 1) (InputJsonDelta ''{}'')]"

text \<open>A chunk with the fragment whose \<open>function\<close> is null, then text.\<close>

definition null_function_stream :: "line list" where
  "null_function_stream =
     [Parsed (JDict [(''choices'', JList [JDict [(''delta'', JDict [(''tool_calls'',
        JList [JDict fragment_with_null_function])])]])]),
      Parsed (text_chunk ''Hi''), Done]"

text \<open>The usage chunk first, then a tool call.\<close>

definition usage_then_tool_stream :: "line list" where
  "usage_then_tool_stream = [Parsed usage_chunk, Parsed (tool_chunk 1 ''{}''), Done]"

text \<open>Text, then a last chunk whose finish reason is a list.\<close>

definition list_finish_reason_stream :: "line list" where
  "list_finish_reason_stream =
     [Parsed (text_chunk ''Hi''), Parsed (finish_chunk (JList [JStr ''stop''])), Done]"

definition list_finish_reason_events :: "event list" where
  "list_finish_reason_events =
     [MessageStart ''id1'' (JStr ''m1''), Ping,
      ContentBlockStart (JInt 0) TextBlock,
      ContentBlockDelta (JInt 0) (TextDelta (JStr ''Hi''))]"

section \<open>The schema sanitizer\<close>

text \<open>
  C1. The claim: one application of the sanitizer leaves no node with
  \<open>type == "string"\<close> and \<open>format == "uri"\<close> at any depth, also inside the children of
  a node that matched, and a second application changes nothing. The sanitizer returns a
  matching node without its \<open>format\<close> key and without visiting its children: on
  \<open>nested_uri_schema\<close> the inner node keeps \<open>format: uri\<close> after one application, and
  the second application, which no longer sees a match at the root, removes it, so the
  two results differ.
\<close>

theorem remove_uri_format_skips_children_of_match:
  "remove_uri_format nested_uri_schema =
     JDict [(''type'', JStr ''string''),
            (''anyOf'', JList [JDict [(''type'', JStr ''string''), (''format'', JStr ''uri'')]])]
   \<and> remove_uri_format (remove_uri_format nested_uri_schema) =
     JDict [(''type'', JStr ''string''), (''anyOf'', JList [JDict [(''type'', JStr ''string'')]])]
   \<and> remove_uri_format (remove_uri_format nested_uri_schema) \<noteq> remove_uri_format nested_uri_schema"
  by (simp add: nested_uri_schema_def dict_get_def)


section \<open>Request translation\<close>

lemma bind_err_Inr_iff: "bind_err m f = Inr r \<longleftrightarrow> (\<exists>v. m = Inr v \<and> f v = Inr r)"
  by (cases m) (auto simp: bind_err_def)

lemma attr_get_Inr_iff: "attr_get x k d = Inr v \<longleftrightarrow> (\<exists>kvs. x = JDict kvs \<and> v = dict_get kvs k d)"
  by (cases x) (auto simp: attr_get_def)

text \<open>What a successful translation went through, step by step.\<close>

lemma translate_request_shape:
  assumes "translate_request cfg dumps payload = Inr out"
  obtains kvs messages0 msgs messages tl tools where
    "payload = JDict kvs"
    "system_messages payload = Inr messages0"
    "py_iter (dict_get kvs ''messages'' (JList [])) = Inr msgs"
    "translate_messages dumps messages0 msgs = Inr messages"
    "py_iter (dict_get kvs ''tools'' (JList [])) = Inr tl"
    "tools_of tl = Inr tools"
    "out = JDict ([(''model'', JStr (if truthy (dict_get kvs ''thinking'' JNull)
                                     then REASONING_MODEL cfg else COMPLETION_MODEL cfg)),
                   (''messages'', JList messages),
                   (''max_tokens'', dict_get kvs ''max_tokens'' (JInt 4096)),
                   (''temperature'', dict_get kvs ''temperature'' (JFloat 1)),
                   (''stream'', dict_get kvs ''stream'' (JBool False))]
                  @ (if tools \<noteq> [] then [(''tools'', JList tools)] else []))"
proof -
  from assms obtain is_stream messages0 ms msgs messages ts tl tools thinking max_tokens temperature where
    a: "attr_get payload ''stream'' (JBool False) = Inr is_stream"
       "system_messages payload = Inr messages0"
       "attr_get payload ''messages'' (JList []) = Inr ms"
       "py_iter ms = Inr msgs"
       "translate_messages dumps messages0 msgs = Inr messages"
       "attr_get payload ''tools'' (JList []) = Inr ts"
       "py_iter ts = Inr tl"
       "tools_of tl = Inr tools"
       "attr_get payload ''thinking'' JNull = Inr thinking"
       "attr_get payload ''max_tokens'' (JInt 4096) = Inr max_tokens"
       "attr_get payload ''temperature'' (JFloat 1) = Inr temperature"
       "out = JDict ([(''model'', JStr (if truthy thinking
                                     then REASONING_MODEL cfg else COMPLETION_MODEL cfg)),
                   (''messages'', JList messages),
                   (''max_tokens'', max_tokens),
                   (''temperature'', temperature),
                   (''stream'', is_stream)]
                  @ (if tools \<noteq> [] then [(''tools'', JList tools)] else []))"
    unfolding translate_request_def bind_err_Inr_iff by fastforce
  from a(1) obtain kvs where p: "payload = JDict kvs"
    by (auto simp: attr_get_Inr_iff)
  show ?thesis
    by (rule that[of kvs messages0 msgs messages tl tools])
       (use a p in \<open>simp_all add: attr_get_def\<close>)
qed

text \<open>
  C6. Whenever the translation produces an outbound request: its \<open>model\<close> is the
  reasoning model if \<open>thinking\<close> is truthy and the completion model otherwise; the
  reasoning model is the value of its variable and the completion model the value of its
  own, each the default model when its variable is unset or empty, and the default model
  is the value of \<open>MODEL\<close>, or \<open>my-model\<close>; \<open>max_tokens\<close> is the inbound value, or 4096
  when the key is absent; \<open>temperature\<close> is the inbound value, or 1.0 when the key is
  absent; and the outbound request has no \<open>tools\<close> key when the inbound request has none
  or an empty list.
\<close>

theorem translate_request_model_and_defaults:
  assumes "translate_request cfg dumps payload = Inr out"
  shows "\<exists>kvs okvs. payload = JDict kvs \<and> out = JDict okvs
     \<and> map_of okvs ''model'' =
          Some (JStr (if truthy (dict_get kvs ''thinking'' JNull) then REASONING_MODEL cfg
                      else COMPLETION_MODEL cfg))
     \<and> REASONING_MODEL cfg =
          (case env_REASONING_MODEL cfg of
             None \<Rightarrow> DEFAULT_MODEL cfg
           | Some s \<Rightarrow> if s = [] then DEFAULT_MODEL cfg else s)
     \<and> COMPLETION_MODEL cfg =
          (case env_COMPLETION_MODEL cfg of
             None \<Rightarrow> DEFAULT_MODEL cfg
           | Some s \<Rightarrow> if s = [] then DEFAULT_MODEL cfg else s)
     \<and> DEFAULT_MODEL cfg =
          (case env_MODEL cfg of None \<Rightarrow> ''my-model'' | Some s \<Rightarrow> if s = [] then ''my-model'' else s)
     \<and> (env_REASONING_MODEL cfg = None \<longrightarrow> REASONING_MODEL cfg = DEFAULT_MODEL cfg)
     \<and> (env_COMPLETION_MODEL cfg = None \<longrightarrow> COMPLETION_MODEL cfg = DEFAULT_MODEL cfg)
     \<and> map_of okvs ''max_tokens'' =
          Some (case map_of kvs ''max_tokens'' of None \<Rightarrow> JInt 4096 | Some v \<Rightarrow> v)
     \<and> map_of okvs ''temperature'' =
          Some (case map_of kvs ''temperature'' of None \<Rightarrow> JFloat 1 | Some v \<Rightarrow> v)
     \<and> ((map_of kvs ''tools'' = None \<or> map_of kvs ''tools'' = Some (JList []))
          \<longrightarrow> map_of okvs ''tools'' = None)"
proof -
  from assms obtain kvs messages0 msgs messages tl tools where
    p: "payload = JDict kvs"
    and tl: "py_iter (dict_get kvs ''tools'' (JList [])) = Inr tl"
    and tools: "tools_of tl = Inr tools"
    and out: "out = JDict ([(''model'', JStr (if truthy (dict_get kvs ''thinking'' JNull)
                                     then REASONING_MODEL cfg else COMPLETION_MODEL cfg)),
                   (''messages'', JList messages),
                   (''max_tokens'', dict_get kvs ''max_tokens'' (JInt 4096)),
                   (''temperature'', dict_get kvs ''temperature'' (JFloat 1)),
                   (''stream'', dict_get kvs ''stream'' (JBool False))]
                  @ (if tools \<noteq> [] then [(''tools'', JList tools)] else []))"
    by (rule translate_request_shape)
  have none: "tools = []" if "map_of kvs ''tools'' = None \<or> map_of kvs ''tools'' = Some (JList [])"
  proof -
    from that have "dict_get kvs ''tools'' (JList []) = JList []"
      by (auto simp: dict_get_def)
    with tl have "tl = []" by simp
    with tools show ?thesis by simp
  qed
  have rd: "REASONING_MODEL cfg =
          (case env_REASONING_MODEL cfg of
             None \<Rightarrow> DEFAULT_MODEL cfg
           | Some s \<Rightarrow> if s = [] then DEFAULT_MODEL cfg else s)"
    by (simp add: REASONING_MODEL_def getenv_or_def)
  have cd: "COMPLETION_MODEL cfg =
          (case env_COMPLETION_MODEL cfg of
             None \<Rightarrow> DEFAULT_MODEL cfg
           | Some s \<Rightarrow> if s = [] then DEFAULT_MODEL cfg else s)"
    by (simp add: COMPLETION_MODEL_def getenv_or_def)
  have dd: "DEFAULT_MODEL cfg =
          (case env_MODEL cfg of None \<Rightarrow> ''my-model'' | Some s \<Rightarrow> if s = [] then ''my-model'' else s)"
    by (simp add: DEFAULT_MODEL_def getenv_or_def)
  have r: "env_REASONING_MODEL cfg = None \<longrightarrow> REASONING_MODEL cfg = DEFAULT_MODEL cfg"
    by (simp add: REASONING_MODEL_def getenv_or_def)
  have c: "env_COMPLETION_MODEL cfg = None \<longrightarrow> COMPLETION_MODEL cfg = DEFAULT_MODEL cfg"
    by (simp add: COMPLETION_MODEL_def getenv_or_def)
  define okvs where "okvs = [(''model'', JStr (if truthy (dict_get kvs ''thinking'' JNull)
                                     then REASONING_MODEL cfg else COMPLETION_MODEL cfg)),
                   (''messages'', JList messages),
                   (''max_tokens'', dict_get kvs ''max_tokens'' (JInt 4096)),
                   (''temperature'', dict_get kvs ''temperature'' (JFloat 1)),
                   (''stream'', dict_get kvs ''stream'' (JBool False))]
                  @ (if tools \<noteq> [] then [(''tools'', JList tools)] else [])"
  have o: "out = JDict okvs" using out by (simp only: okvs_def)
  have m: "map_of okvs ''model'' = Some (JStr (if truthy (dict_get kvs ''thinking'' JNull)
              then REASONING_MODEL cfg else COMPLETION_MODEL cfg))"
    by (simp add: okvs_def)
  have mt: "map_of okvs ''max_tokens'' =
          Some (case map_of kvs ''max_tokens'' of None \<Rightarrow> JInt 4096 | Some v \<Rightarrow> v)"
    by (simp add: okvs_def dict_get_def)
  have te: "map_of okvs ''temperature'' =
          Some (case map_of kvs ''temperature'' of None \<Rightarrow> JFloat 1 | Some v \<Rightarrow> v)"
    by (simp add: okvs_def dict_get_def)
  have tn: "(map_of kvs ''tools'' = None \<or> map_of kvs ''tools'' = Some (JList []))
          \<longrightarrow> map_of okvs ''tools'' = None"
    using none by (auto simp add: okvs_def)
  show ?thesis
    apply (rule exI[of _ kvs])
    apply (rule exI[of _ okvs])
    apply (intro conjI)
              apply (rule p)
             apply (rule o)
            apply (rule m)
           apply (rule rd)
          apply (rule cd)
         apply (rule dd)
        apply (rule r)
       apply (rule c)
      apply (rule mt)
     apply (rule te)
    apply (rule tn)
    done
qed

lemma thinking_request_eval:
  "translate_request example_config example_dumps thinking_request = Inr (JDict thinking_request_out)"
  by code_simp

lemma plain_request_eval:
  "translate_request configured_config example_dumps plain_request = Inr (JDict plain_request_out)"
  by code_simp

theorem translate_request_model_and_defaults_witness:
  "translate_request example_config example_dumps thinking_request = Inr (JDict thinking_request_out)
   \<and> map_of thinking_request_out ''model'' = Some (JStr ''r1'')
   \<and> REASONING_MODEL example_config = ''r1''
   \<and> COMPLETION_MODEL example_config = ''my-model''
   \<and> map_of thinking_request_out ''max_tokens'' = Some (JInt 4096)
   \<and> map_of thinking_request_out ''temperature'' = Some (JFloat 1)
   \<and> map_of thinking_request_out ''tools'' = None
   \<and> translate_request configured_config example_dumps plain_request = Inr (JDict plain_request_out)
   \<and> map_of plain_request_out ''model'' = Some (JStr ''c1'')
   \<and> COMPLETION_MODEL configured_config = ''c1''
   \<and> REASONING_MODEL configured_config = ''r2''
   \<and> DEFAULT_MODEL configured_config = ''d1''
   \<and> map_of plain_request_out ''max_tokens'' = Some (JInt 100)
   \<and> map_of plain_request_out ''temperature'' = Some (JFloat 0)"
proof -
  from translate_request_model_and_defaults[OF thinking_request_eval]
  have a: "map_of thinking_request_out ''model'' = Some (JStr ''r1'')
   \<and> REASONING_MODEL example_config = ''r1''
   \<and> COMPLETION_MODEL example_config = ''my-model''
   \<and> map_of thinking_request_out ''max_tokens'' = Some (JInt 4096)
   \<and> map_of thinking_request_out ''temperature'' = Some (JFloat 1)
   \<and> map_of thinking_request_out ''tools'' = None"
    by (auto simp: thinking_request_def dict_get_def example_config_def)
  from translate_request_model_and_defaults[OF plain_request_eval]
  have b: "map_of plain_request_out ''model'' = Some (JStr ''c1'')
   \<and> COMPLETION_MODEL configured_config = ''c1''
   \<and> REASONING_MODEL configured_config = ''r2''
   \<and> DEFAULT_MODEL configured_config = ''d1''
   \<and> map_of plain_request_out ''max_tokens'' = Some (JInt 100)
   \<and> map_of plain_request_out ''temperature'' = Some (JFloat 0)"
    by (auto simp: plain_request_def dict_get_def configured_config_def)
  from thinking_request_eval a plain_request_eval b show ?thesis by (intro conjI) simp_all
qed

lemma succeeds_simps [simp]: "succeeds (Inr v)" "\<not> succeeds (Inl e)"
  by (simp_all add: succeeds_def)



lemma is_dict_simps [simp]:
  "is_dict (JDict kvs)" "\<not> is_dict JNull" "\<not> is_dict (JBool b)" "\<not> is_dict (JInt i)"
  "\<not> is_dict (JFloat r)" "\<not> is_dict (JStr s)" "\<not> is_dict (JList xs)"
  by (simp_all add: is_dict_def)

lemma is_str_simps [simp]:
  "is_str (JStr s)" "\<not> is_str JNull" "\<not> is_str (JBool b)" "\<not> is_str (JInt i)"
  "\<not> is_str (JFloat r)" "\<not> is_str (JDict kvs)" "\<not> is_str (JList xs)"
  by (simp_all add: is_str_def)

lemma attr_get_simps [simp]:
  "attr_get (JDict kvs) k d = Inr (dict_get kvs k d)"
  "attr_get JNull k d = Inl AttributeError" "attr_get (JBool b) k d = Inl AttributeError"
  "attr_get (JInt i) k d = Inl AttributeError" "attr_get (JFloat r) k d = Inl AttributeError"
  "attr_get (JStr s) k d = Inl AttributeError" "attr_get (JList xs) k d = Inl AttributeError"
  by (simp_all add: attr_get_def)

lemma bind_err_simps [simp]: "bind_err (Inr v) f = f v" "bind_err (Inl e) f = Inl e"
  by (simp_all add: bind_err_def)

lemma is_dict_iff: "is_dict x \<longleftrightarrow> (\<exists>kvs. x = JDict kvs)"
  by (cases x) simp_all

lemma is_str_iff: "is_str x \<longleftrightarrow> (\<exists>s. x = JStr s)"
  by (cases x) simp_all

lemma has_type_simps [simp]:
  "has_type t (JDict kvs) = (dict_get kvs ''type'' JNull = JStr t)"
  "\<not> has_type t JNull" "\<not> has_type t (JBool b)" "\<not> has_type t (JInt i)"
  "\<not> has_type t (JFloat r)" "\<not> has_type t (JStr s)" "\<not> has_type t (JList xs)"
  by (simp_all add: has_type_def)







lemma subscript_simps [simp]:
  "subscript (JDict kvs) k = (case map_of kvs k of Some v \<Rightarrow> Inr v | None \<Rightarrow> Inl KeyError)"
  "subscript JNull k = Inl TypeError" "subscript (JBool b) k = Inl TypeError"
  "subscript (JInt i) k = Inl TypeError" "subscript (JFloat r) k = Inl TypeError"
  "subscript (JStr s) k = Inl TypeError" "subscript (JList xs) k = Inl TypeError"
  by (simp_all add: subscript_def)

lemma has_keys_simps [simp]:
  "has_keys ks (JDict kvs) = list_all (\<lambda>k. map_of kvs k \<noteq> None) ks"
  "\<not> has_keys ks JNull" "\<not> has_keys ks (JBool b)" "\<not> has_keys ks (JInt i)"
  "\<not> has_keys ks (JFloat r)" "\<not> has_keys ks (JStr s)" "\<not> has_keys ks (JList xs)"
  by (simp_all add: has_keys_def)









lemma message_ok_JStr [simp]: "\<not> message_ok (JStr s)"
  by (simp add: message_ok_def)

lemma tool_ok_JStr [simp]: "\<not> tool_ok (JStr s)"
  by (simp add: tool_ok_def)





text \<open>The loop yields what the spec describes.\<close>

lemma field_simps [simp]: "field (JDict kvs) k d = dict_get kvs k d"
  by (simp add: field_def)

lemma content_blocks_simps [simp]:
  "content_blocks (JList items) = items" "content_blocks JNull = []"
  "content_blocks (JBool b) = []" "content_blocks (JInt i) = []" "content_blocks (JFloat r) = []"
  "content_blocks (JStr s) = []" "content_blocks (JDict kvs) = []"
  by (simp_all add: content_blocks_def)





















section \<open>Non-streaming response translation\<close>



lemma subscript_Inr_iff:
  "subscript x k = Inr v \<longleftrightarrow> (\<exists>kvs. x = JDict kvs \<and> map_of kvs k = Some v)"
  by (cases x) (auto split: option.splits)









section \<open>Streaming: one tool-call fragment\<close>

lemma py_eq_refl [simp]: "py_eq a a"
  by (simp add: py_eq_def split: option.splits)

lemma py_eq_sym: "py_eq a b \<Longrightarrow> py_eq b a"
  by (auto simp: py_eq_def split: option.splits)

lemma py_eq_trans: "py_eq a b \<Longrightarrow> py_eq b c \<Longrightarrow> py_eq a c"
  by (auto simp: py_eq_def split: option.splits)

lemma has_key_simps [simp]:
  "has_key [] idx = False"
  "has_key ((k, a) # accs) idx = (py_eq k idx \<or> has_key accs idx)"
  by (simp_all add: has_key_def)

lemma has_key_append [simp]: "has_key (xs @ ys) idx = (has_key xs idx \<or> has_key ys idx)"
  by (simp add: has_key_def list_ex_append)

lemma append_args_new:
  "\<not> has_key accs idx \<Longrightarrow>
   append_args (accs @ [(idx, a)]) idx s = accs @ [(idx, a\<lparr>acc_args := acc_args a @ s\<rparr>)]"
  by (induction accs) auto

text \<open>
  C10. A tool-call fragment (an object) whose index has not been seen before. If the
  index is unhashable, the lookup raises \<open>TypeError\<close>; if \<open>function\<close> is present and
  not an object (null, say), reading its name raises \<open>AttributeError\<close>; in both cases
  before any event for the fragment. Otherwise (\<open>function\<close> absent or an object) the
  translator yields a \<open>content_block_start\<close> for the index whose block has the
  fragment's \<open>id\<close> and function \<open>name\<close>, each the empty string where the key is
  missing, and then: if \<open>arguments\<close> is truthy and not a string, \<open>TypeError\<close> is raised
  after the start; if it is a non-empty string, the delta follows, the accumulator for
  the index holds id, name and that string, and the remaining fragments are processed;
  if it is absent or falsy, there is no delta, the accumulator holds the empty argument
  string, and the remaining fragments are processed.
\<close>

theorem new_tool_call_without_id_or_name:
  assumes "map_of tkvs ''index'' = Some idx"
    and "\<not> has_key (tool_call_accumulators st) idx"
  shows "(\<not> hashable idx \<longrightarrow> process_tool_call st (JDict tkvs) = ([], Inl TypeError))
     \<and> (hashable idx \<and> \<not> is_dict (dict_get tkvs ''function'' (JDict [])) \<longrightarrow>
          process_tool_call st (JDict tkvs) = ([], Inl AttributeError))
     \<and> (\<forall>fkvs. hashable idx \<and> dict_get tkvs ''function'' (JDict []) = JDict fkvs \<longrightarrow>
          (\<exists>i n a start opened.
              i = (case map_of tkvs ''id'' of None \<Rightarrow> JStr [] | Some v \<Rightarrow> v)
            \<and> n = (case map_of fkvs ''name'' of None \<Rightarrow> JStr [] | Some v \<Rightarrow> v)
            \<and> a = (case map_of fkvs ''arguments'' of None \<Rightarrow> JStr [] | Some v \<Rightarrow> v)
            \<and> start = ContentBlockStart idx (ToolUseBlock i n)
            \<and> opened = (\<lambda>s. st\<lparr>tool_call_accumulators := tool_call_accumulators st
                                @ [(idx, \<lparr>acc_id = i, acc_name = n, acc_args = s\<rparr>)]\<rparr>)
            \<and> (truthy a \<and> \<not> is_str a \<longrightarrow>
                  process_tool_call st (JDict tkvs) = ([start], Inl TypeError))
            \<and> (\<forall>s. a = JStr s \<and> s \<noteq> [] \<longrightarrow>
                  process_tool_call st (JDict tkvs)
                    = ([start, ContentBlockDelta idx (InputJsonDelta s)], Inr (opened s))
                  \<and> process_tool_calls st (JDict tkvs # rest)
                    = ([start, ContentBlockDelta idx (InputJsonDelta s)]
                         @ fst (process_tool_calls (opened s) rest),
                       snd (process_tool_calls (opened s) rest)))
            \<and> (\<not> truthy a \<longrightarrow>
                  process_tool_call st (JDict tkvs) = ([start], Inr (opened []))
                  \<and> process_tool_calls st (JDict tkvs # rest)
                    = ([start] @ fst (process_tool_calls (opened []) rest),
                       snd (process_tool_calls (opened []) rest)))))"
proof (intro conjI impI allI)
  assume "\<not> hashable idx"
  with assms show "process_tool_call st (JDict tkvs) = ([], Inl TypeError)"
    by (simp add: process_tool_call_def)
next
  assume h: "hashable idx \<and> \<not> is_dict (dict_get tkvs ''function'' (JDict []))"
  then have "attr_get (dict_get tkvs ''function'' (JDict [])) ''name'' (JStr []) = Inl AttributeError"
    by (cases "dict_get tkvs ''function'' (JDict [])") simp_all
  with assms h show "process_tool_call st (JDict tkvs) = ([], Inl AttributeError)"
    by (simp add: process_tool_call_def)
next
  fix fkvs
  assume h: "hashable idx \<and> dict_get tkvs ''function'' (JDict []) = JDict fkvs"
  define i where "i = (case map_of tkvs ''id'' of None \<Rightarrow> JStr [] | Some v \<Rightarrow> v)"
  define n where "n = (case map_of fkvs ''name'' of None \<Rightarrow> JStr [] | Some v \<Rightarrow> v)"
  define a where "a = (case map_of fkvs ''arguments'' of None \<Rightarrow> JStr [] | Some v \<Rightarrow> v)"
  define start where "start = ContentBlockStart idx (ToolUseBlock i n)"
  define opened where "opened = (\<lambda>s. st\<lparr>tool_call_accumulators := tool_call_accumulators st
                                @ [(idx, \<lparr>acc_id = i, acc_name = n, acc_args = s\<rparr>)]\<rparr>)"
  have p: "process_tool_call st (JDict tkvs) =
             (if \<not> truthy a then ([start], Inr (opened []))
              else (case a of
                      JStr s \<Rightarrow>
                        ([start] @ [ContentBlockDelta idx (InputJsonDelta s)],
                         Inr ((opened [])\<lparr>tool_call_accumulators :=
                                   append_args (tool_call_accumulators (opened [])) idx s\<rparr>))
                    | _ \<Rightarrow> ([start], Inl TypeError)))"
    using assms h
    unfolding process_tool_call_def
    by (simp add: i_def n_def a_def start_def opened_def dict_get_def split: json.splits)
  have ap: "(opened [])\<lparr>tool_call_accumulators :=
                 append_args (tool_call_accumulators (opened [])) idx s\<rparr> = opened s" for s
    using assms(2) by (simp add: opened_def append_args_new)
  have raises: "process_tool_call st (JDict tkvs) = ([start], Inl TypeError)"
    if "truthy a \<and> \<not> is_str a"
    using that p by (cases a) simp_all
  have delta: "process_tool_call st (JDict tkvs)
             = ([start, ContentBlockDelta idx (InputJsonDelta s)], Inr (opened s))"
    if "a = JStr s \<and> s \<noteq> []" for s
    using that p ap by simp
  have no_delta: "process_tool_call st (JDict tkvs) = ([start], Inr (opened []))"
    if "\<not> truthy a"
    using that p by simp
  have delta_on: "process_tool_calls st (JDict tkvs # rest)
                    = ([start, ContentBlockDelta idx (InputJsonDelta s)]
                         @ fst (process_tool_calls (opened s) rest),
                       snd (process_tool_calls (opened s) rest))"
    if "a = JStr s \<and> s \<noteq> []" for s
    using delta[OF that] by (simp add: case_prod_beta)
  have no_delta_on: "process_tool_calls st (JDict tkvs # rest)
                    = ([start] @ fst (process_tool_calls (opened []) rest),
                       snd (process_tool_calls (opened []) rest))"
    if "\<not> truthy a"
    using no_delta[OF that] by (simp add: case_prod_beta)
  show "\<exists>i n a start opened.
              i = (case map_of tkvs ''id'' of None \<Rightarrow> JStr [] | Some v \<Rightarrow> v)
            \<and> n = (case map_of fkvs ''name'' of None \<Rightarrow> JStr [] | Some v \<Rightarrow> v)
            \<and> a = (case map_of fkvs ''arguments'' of None \<Rightarrow> JStr [] | Some v \<Rightarrow> v)
            \<and> start = ContentBlockStart idx (ToolUseBlock i n)
            \<and> opened = (\<lambda>s. st\<lparr>tool_call_accumulators := tool_call_accumulators st
                                @ [(idx, \<lparr>acc_id = i, acc_name = n, acc_args = s\<rparr>)]\<rparr>)
            \<and> (truthy a \<and> \<not> is_str a \<longrightarrow>
                  process_tool_call st (JDict tkvs) = ([start], Inl TypeError))
            \<and> (\<forall>s. a = JStr s \<and> s \<noteq> [] \<longrightarrow>
                  process_tool_call st (JDict tkvs)
                    = ([start, ContentBlockDelta idx (InputJsonDelta s)], Inr (opened s))
                  \<and> process_tool_calls st (JDict tkvs # rest)
                    = ([start, ContentBlockDelta idx (InputJsonDelta s)]
                         @ fst (process_tool_calls (opened s) rest),
                       snd (process_tool_calls (opened s) rest)))
            \<and> (\<not> truthy a \<longrightarrow>
                  process_tool_call st (JDict tkvs) = ([start], Inr (opened []))
                  \<and> process_tool_calls st (JDict tkvs # rest)
                    = ([start] @ fst (process_tool_calls (opened []) rest),
                       snd (process_tool_calls (opened []) rest)))"
    apply (rule exI[of _ i])
    apply (rule exI[of _ n])
    apply (rule exI[of _ a])
    apply (rule exI[of _ start])
    apply (rule exI[of _ opened])
    apply (intro conjI impI allI)
             apply (rule i_def)
            apply (rule n_def)
           apply (rule a_def)
          apply (rule start_def)
         apply (rule opened_def)
        apply (erule raises)
       apply (erule delta)
      apply (erule delta_on)
     apply (erule no_delta)
    apply (erule no_delta_on)
    done
qed

theorem new_tool_call_without_id_or_name_witness:
  "process_tool_call initial_state (JDict fragment_without_id_or_name) =
     ([ContentBlockStart (JInt 1) (ToolUseBlock (JStr []) (JStr []))],
      Inr (initial_state\<lparr>tool_call_accumulators :=
             [(JInt 1, \<lparr>acc_id = JStr [], acc_name = JStr [], acc_args = []\<rparr>)]\<rparr>))
   \<and> process_tool_call initial_state (JDict [(''index'', JInt 2), (''id'', JStr ''call''),
         (''function'', JDict [(''arguments'', JStr ''{}'')])]) =
     ([ContentBlockStart (JInt 2) (ToolUseBlock (JStr ''call'') (JStr [])),
       ContentBlockDelta (JInt 2) (InputJsonDelta ''{}'')],
      Inr (initial_state\<lparr>tool_call_accumulators :=
             [(JInt 2, \<lparr>acc_id = JStr ''call'', acc_name = JStr [], acc_args = ''{}''\<rparr>)]\<rparr>))
   \<and> process_tool_call initial_state (JDict [(''index'', JInt 3), (''function'', JStr ''f'')]) =
     ([], Inl AttributeError)"
proof -
  have new: "\<not> has_key (tool_call_accumulators initial_state) idx" for idx
    by (simp add: initial_state_def)
  have a: "map_of fragment_without_id_or_name ''index'' = Some (JInt 1)"
    by (simp add: fragment_without_id_or_name_def)
  have b: "map_of [(''index'', JInt 2), (''id'', JStr ''call''),
         (''function'', JDict [(''arguments'', JStr ''{}'')])] ''index'' = Some (JInt 2)"
    by simp
  have c: "map_of [(''index'', JInt 3), (''function'', JStr ''f'')] ''index'' = Some (JInt 3)"
    by simp
  from new_tool_call_without_id_or_name[OF a new, of "[]"]
  have 1: "process_tool_call initial_state (JDict fragment_without_id_or_name) =
     ([ContentBlockStart (JInt 1) (ToolUseBlock (JStr []) (JStr []))],
      Inr (initial_state\<lparr>tool_call_accumulators :=
             [(JInt 1, \<lparr>acc_id = JStr [], acc_name = JStr [], acc_args = []\<rparr>)]\<rparr>))"
    by (simp add: fragment_without_id_or_name_def initial_state_def dict_get_def)
  from new_tool_call_without_id_or_name[OF b new, of "[]"]
  have 2: "process_tool_call initial_state (JDict [(''index'', JInt 2), (''id'', JStr ''call''),
         (''function'', JDict [(''arguments'', JStr ''{}'')])]) =
     ([ContentBlockStart (JInt 2) (ToolUseBlock (JStr ''call'') (JStr [])),
       ContentBlockDelta (JInt 2) (InputJsonDelta ''{}'')],
      Inr (initial_state\<lparr>tool_call_accumulators :=
             [(JInt 2, \<lparr>acc_id = JStr ''call'', acc_name = JStr [], acc_args = ''{}''\<rparr>)]\<rparr>))"
    by (simp add: initial_state_def dict_get_def)
  from new_tool_call_without_id_or_name[OF c new, of "[]"]
  have 3: "process_tool_call initial_state (JDict [(''index'', JInt 3), (''function'', JStr ''f'')]) =
     ([], Inl AttributeError)"
    by (simp add: dict_get_def)
  from 1 2 3 show ?thesis by (intro conjI)
qed

text \<open>
  A fragment with a new index, no id and no function name, whose \<open>function\<close> is null:
  \<open>AttributeError\<close>, no event for the fragment, and the stream ends after
  \<open>message_start\<close> and \<open>ping\<close> although a text chunk follows. With \<open>arguments\<close> the
  number 5: the start is yielded, then \<open>TypeError\<close>.
\<close>

theorem fragment_with_null_function_counterexample:
  "map_of fragment_with_null_function ''id'' = None
   \<and> process_tool_call initial_state (JDict fragment_with_null_function) = ([], Inl AttributeError)
   \<and> stream_generator ''id1'' example_payload null_function_stream =
       ([MessageStart ''id1'' (JStr ''m1''), Ping], Some AttributeError)
   \<and> map_of fragment_with_number_arguments ''id'' = None
   \<and> process_tool_call initial_state (JDict fragment_with_number_arguments) =
       ([ContentBlockStart (JInt 1) (ToolUseBlock (JStr []) (JStr []))], Inl TypeError)"
proof -
  have 1: "map_of fragment_with_null_function ''id'' = None" by code_simp
  have 2: "process_tool_call initial_state (JDict fragment_with_null_function) = ([], Inl AttributeError)"
    by code_simp
  have 3: "stream_generator ''id1'' example_payload null_function_stream =
       ([MessageStart ''id1'' (JStr ''m1''), Ping], Some AttributeError)"
    by code_simp
  have 4: "map_of fragment_with_number_arguments ''id'' = None" by code_simp
  have 5: "process_tool_call initial_state (JDict fragment_with_number_arguments) =
       ([ContentBlockStart (JInt 1) (ToolUseBlock (JStr []) (JStr []))], Inl TypeError)"
    by code_simp
  from 1 2 3 4 5 show ?thesis by (intro conjI)
qed

section \<open>Streaming: the order of the events\<close>

lemma key_mem_simps [simp]:
  "key_mem [] i = False"
  "key_mem (k # K) i = (py_eq k i \<or> key_mem K i)"
  by (simp_all add: key_mem_def)

lemma key_mem_append [simp]: "key_mem (K @ L) i = (key_mem K i \<or> key_mem L i)"
  by (simp add: key_mem_def list_ex_append)

lemma has_key_keys: "has_key accs i = key_mem (map fst accs) i"
  by (induction accs) auto

lemma map_fst_append_args [simp]: "map fst (append_args accs idx s) = map fst accs"
  by (induction accs idx s rule: append_args.induct) auto

lemma process_tool_call_cases:
  assumes "process_tool_call st tc = (evs, r)"
  obtains (fail) e where "evs = []" "r = Inl e"
  | (seen) tkvs idx deltas where
      "tc = JDict tkvs" "map_of tkvs ''index'' = Some idx" "hashable idx"
      "has_key (tool_call_accumulators st) idx"
      "evs = deltas"
      "deltas = [] \<or> (\<exists>s. deltas = [ContentBlockDelta idx (InputJsonDelta s)])"
      "(\<exists>e. r = Inl e) \<or> (\<exists>st'. r = Inr st' \<and> map fst (tool_call_accumulators st') = map fst (tool_call_accumulators st)
          \<and> text_block_started st' = text_block_started st \<and> usage st' = usage st \<and> last_chunk st' = last_chunk st)"
  | (new) tkvs idx i n deltas where
      "tc = JDict tkvs" "map_of tkvs ''index'' = Some idx" "hashable idx"
      "\<not> has_key (tool_call_accumulators st) idx"
      "evs = ContentBlockStart idx (ToolUseBlock i n) # deltas"
      "deltas = [] \<or> (\<exists>s. deltas = [ContentBlockDelta idx (InputJsonDelta s)])"
      "(\<exists>e. r = Inl e) \<or> (\<exists>st'. r = Inr st' \<and> map fst (tool_call_accumulators st') = map fst (tool_call_accumulators st) @ [idx]
          \<and> text_block_started st' = text_block_started st \<and> usage st' = usage st \<and> last_chunk st' = last_chunk st)"
proof (cases "subscript tc ''index''")
  case (Inl e)
  with assms have "evs = []" "r = Inl e" by (simp_all add: process_tool_call_def)
  then show ?thesis by (rule fail)
next
  case (Inr idx)
  then obtain tkvs where tc: "tc = JDict tkvs" and ix: "map_of tkvs ''index'' = Some idx"
    by (auto simp: subscript_Inr_iff)
  show ?thesis
  proof (cases "hashable idx")
    case False
    with assms Inr have "evs = []" "r = Inl TypeError" by (simp_all add: process_tool_call_def)
    then show ?thesis by (rule fail)
  next
    case h: True
    show ?thesis
    proof (cases "has_key (tool_call_accumulators st) idx")
      case True
      from assms Inr h True tc have
        "evs = [] \<or> (\<exists>s. evs = [ContentBlockDelta idx (InputJsonDelta s)])"
        "(\<exists>e. r = Inl e) \<or> (\<exists>st'. r = Inr st' \<and> map fst (tool_call_accumulators st') = map fst (tool_call_accumulators st)
          \<and> text_block_started st' = text_block_started st \<and> usage st' = usage st \<and> last_chunk st' = last_chunk st)"
        unfolding process_tool_call_def
        by (auto simp del: subscript_simps split: sum.splits if_splits json.splits)
      with tc ix h True show ?thesis by (intro seen[of tkvs idx evs]) auto
    next
      case False
      show ?thesis
      proof (cases "attr_get (dict_get tkvs ''function'' (JDict [])) ''name'' (JStr [])")
        case (Inl e)
        with assms Inr h False tc have "evs = []" "r = Inl e"
          by (simp_all add: process_tool_call_def)
        then show ?thesis by (rule fail)
      next
        case n: (Inr n)
        from assms Inr h False tc n obtain deltas where
          "evs = ContentBlockStart idx (ToolUseBlock (dict_get tkvs ''id'' (JStr [])) n) # deltas"
          "deltas = [] \<or> (\<exists>s. deltas = [ContentBlockDelta idx (InputJsonDelta s)])"
          "(\<exists>e. r = Inl e) \<or> (\<exists>st'. r = Inr st' \<and> map fst (tool_call_accumulators st') = map fst (tool_call_accumulators st) @ [idx]
          \<and> text_block_started st' = text_block_started st \<and> usage st' = usage st \<and> last_chunk st' = last_chunk st)"
          unfolding process_tool_call_def
          by (auto simp del: subscript_simps split: sum.splits if_splits json.splits)
        with tc ix h False show ?thesis
          by (intro new[of tkvs idx "dict_get tkvs ''id'' (JStr [])" n deltas]) auto
      qed
    qed
  qed
qed


lemma tool_start_indices_append [simp]:
  "tool_start_indices (xs @ ys) = tool_start_indices xs @ tool_start_indices ys"
  by (induction xs rule: tool_start_indices.induct) simp_all

lemma ordered_from_append:
  "ordered_from K (xs @ ys) \<longleftrightarrow>
   ordered_from K xs \<and> ordered_from (K @ tool_start_indices xs) ys"
  by (induction K xs rule: ordered_from.induct) simp_all

text \<open>One fragment.\<close>

lemma process_tool_call_ordered:
  assumes "process_tool_call st tc = (evs, r)"
  shows "ordered_from (keys st) evs"
  using assms
  by (cases rule: process_tool_call_cases) (auto simp: keys_def has_key_keys)

lemma process_tool_call_state:
  assumes "process_tool_call st tc = (evs, Inr st')"
  shows "keys st' = keys st @ tool_start_indices evs
         \<and> text_block_started st' = text_block_started st
         \<and> usage st' = usage st \<and> last_chunk st' = last_chunk st
         \<and> ContentBlockStart (JInt 0) TextBlock \<notin> set evs"
  using assms
  by (cases rule: process_tool_call_cases) (auto simp: keys_def)

lemma process_tool_call_index:
  assumes "process_tool_call st tc = (evs, r)" and "e \<in> set evs"
  shows "\<exists>i. tool_event_index e = Some i \<and> fragment_index tc = Some i"
  using assms
  by (cases rule: process_tool_call_cases) (auto simp: fragment_index_def)

lemma process_tool_call_covers:
  assumes "process_tool_call st tc = (evs, Inr st')" and "fragment_index tc = Some i"
  shows "key_mem (keys st') i"
  using assms
  by (cases rule: process_tool_call_cases) (auto simp: fragment_index_def keys_def has_key_keys)

lemma process_tool_call_succeeds:
  assumes "process_tool_call st tc = (evs, Inr st')"
  shows "\<exists>i. fragment_index tc = Some i"
  using assms
  by (cases rule: process_tool_call_cases) (auto simp: fragment_index_def)


text \<open>The fragments of one delta.\<close>

lemma fragment_indices_simps [simp]:
  "fragment_indices [] = []"
  "fragment_indices (tc # tcs) =
     (case fragment_index tc of None \<Rightarrow> fragment_indices tcs | Some i \<Rightarrow> i # fragment_indices tcs)"
  by (simp_all add: fragment_indices_def List.map_filter_simps split: option.splits)

lemma process_tool_calls_Cons:
  assumes "process_tool_calls st (tc # tcs) = (evs, r)"
  obtains (stop) e where "process_tool_call st tc = (evs, Inl e)" "r = Inl e"
  | (go) evs1 st1 evs2 where
      "process_tool_call st tc = (evs1, Inr st1)"
      "process_tool_calls st1 tcs = (evs2, r)" "evs = evs1 @ evs2"
proof (cases "process_tool_call st tc")
  case (Pair evs1 r1)
  show ?thesis
  proof (cases r1)
    case (Inl e)
    with Pair assms show ?thesis by (intro stop[of e]) simp_all
  next
    case (Inr st1)
    obtain evs2 r2 where p2: "process_tool_calls st1 tcs = (evs2, r2)"
      by (cases "process_tool_calls st1 tcs")
    with Pair Inr assms show ?thesis by (intro go[of evs1 st1 evs2]) simp_all
  qed
qed

lemma process_tool_calls_ordered:
  "process_tool_calls st tcs = (evs, r) \<Longrightarrow> ordered_from (keys st) evs"
proof (induction tcs arbitrary: st evs)
  case Nil
  then show ?case by simp
next
  case (Cons tc tcs)
  from Cons.prems show ?case
  proof (cases rule: process_tool_calls_Cons)
    case (stop e)
    then show ?thesis by (simp add: process_tool_call_ordered)
  next
    case (go evs1 st1 evs2)
    from process_tool_call_state[OF go(1)] process_tool_call_ordered[OF go(1)]
      Cons.IH[OF go(2)] go(3)
    show ?thesis by (simp add: ordered_from_append)
  qed
qed

lemma process_tool_calls_state:
  "process_tool_calls st tcs = (evs, Inr st') \<Longrightarrow>
   keys st' = keys st @ tool_start_indices evs
   \<and> text_block_started st' = text_block_started st
   \<and> usage st' = usage st \<and> last_chunk st' = last_chunk st
   \<and> ContentBlockStart (JInt 0) TextBlock \<notin> set evs"
proof (induction tcs arbitrary: st evs)
  case Nil
  then show ?case by simp
next
  case (Cons tc tcs)
  from Cons.prems show ?case
  proof (cases rule: process_tool_calls_Cons)
    case (stop e)
    then show ?thesis by simp
  next
    case (go evs1 st1 evs2)
    from process_tool_call_state[OF go(1)] Cons.IH[OF go(2)] go(3)
    show ?thesis by simp
  qed
qed

lemma process_tool_calls_index:
  "process_tool_calls st tcs = (evs, r) \<Longrightarrow> e \<in> set evs \<Longrightarrow>
   \<exists>i. tool_event_index e = Some i \<and> i \<in> set (fragment_indices tcs)"
proof (induction tcs arbitrary: st evs)
  case Nil
  then show ?case by simp
next
  case (Cons tc tcs)
  from Cons.prems(1) show ?case
  proof (cases rule: process_tool_calls_Cons)
    case (stop e')
    from process_tool_call_index[OF stop(1) Cons.prems(2)] show ?thesis by auto
  next
    case (go evs1 st1 evs2)
    from Cons.prems(2) go(3) consider "e \<in> set evs1" | "e \<in> set evs2" by auto
    then show ?thesis
    proof cases
      case 1
      from process_tool_call_index[OF go(1) 1] show ?thesis by auto
    next
      case 2
      from Cons.IH[OF go(2) 2] show ?thesis by (auto split: option.splits)
    qed
  qed
qed

lemma process_tool_calls_covers:
  "process_tool_calls st tcs = (evs, Inr st') \<Longrightarrow>
   (\<forall>i. key_mem (keys st) i \<longrightarrow> key_mem (keys st') i)
   \<and> (\<forall>i\<in>set (fragment_indices tcs). key_mem (keys st') i)"
proof (induction tcs arbitrary: st evs)
  case Nil
  then show ?case by simp
next
  case (Cons tc tcs)
  from Cons.prems show ?case
  proof (cases rule: process_tool_calls_Cons)
    case (stop e)
    then show ?thesis by simp
  next
    case (go evs1 st1 evs2)
    from process_tool_call_succeeds[OF go(1)] obtain j where j: "fragment_index tc = Some j" ..
    from process_tool_call_covers[OF go(1) j] have "key_mem (keys st1) j" .
    moreover from process_tool_call_state[OF go(1)]
    have "key_mem (keys st) i \<Longrightarrow> key_mem (keys st1) i" for i by simp
    ultimately show ?thesis using Cons.IH[OF go(2)] j by auto
  qed
qed


text \<open>The text of one delta.\<close>

lemma process_text_facts:
  assumes "process_text st content = (evs, st2)"
  shows "ordered_from K evs" and "tool_start_indices evs = []" and "keys st2 = keys st"
    and "text_block_started st2 = (text_block_started st \<or> ContentBlockStart (JInt 0) TextBlock \<in> set evs)"
    and "last_chunk st2 = last_chunk st"
    and "e \<in> set evs \<Longrightarrow> tool_event_index e = None"
  using assms
  by (auto simp: process_text_def keys_def split: if_splits)

text \<open>One delta.\<close>

lemma process_tool_calls_not_fragments:
  assumes "\<And>x. x \<in> set items \<Longrightarrow> is_str x" and "items \<noteq> []"
  shows "\<exists>e. process_tool_calls st items = ([], Inl e)"
proof -
  from assms obtain s rest where "items = JStr s # rest"
    by (cases items) (auto simp: is_str_iff)
  then show ?thesis by (simp add: process_tool_call_def)
qed

lemma process_delta_cases:
  assumes "process_delta st delta = (evs, r)"
  obtains (fail) e where "evs = []" "r = Inl e"
  | (text_only) dkvs st2 where
      "delta = JDict dkvs" "process_text st (dict_get dkvs ''content'' JNull) = (evs, st2)"
      "(\<exists>e. r = Inl e) \<or> (r = Inr st2 \<and> delta_fragments delta = [])"
  | (tools) dkvs tevs st2 items evs' where
      "delta = JDict dkvs" "process_text st (dict_get dkvs ''content'' JNull) = (tevs, st2)"
      "process_tool_calls st2 items = (evs', r)" "evs = tevs @ evs'"
      "delta_fragments delta = items"
proof (cases delta)
  case (JDict dkvs)
  obtain tevs st2 where t: "process_text st (dict_get dkvs ''content'' JNull) = (tevs, st2)"
    by (cases "process_text st (dict_get dkvs ''content'' JNull)")
  define tcs where "tcs = dict_get dkvs ''tool_calls'' JNull"
  show ?thesis
  proof (cases "truthy tcs")
    case False
    with assms JDict t have "evs = tevs" "r = Inr st2"
      by (simp_all add: process_delta_def tcs_def)
    moreover from False JDict have "delta_fragments delta = []"
      by (cases tcs) (simp_all add: delta_fragments_def tcs_def[symmetric])
    ultimately show ?thesis using JDict t by (intro text_only[of dkvs st2]) simp_all
  next
    case True
    show ?thesis
    proof (cases "py_iter tcs")
      case (Inl e)
      with assms JDict t True have "evs = tevs" "r = Inl e"
        by (simp_all add: process_delta_def tcs_def)
      then show ?thesis using JDict t by (intro text_only[of dkvs st2]) simp_all
    next
      case (Inr items)
      obtain evs' r' where p: "process_tool_calls st2 items = (evs', r')"
        by (cases "process_tool_calls st2 items")
      with assms JDict t True Inr have e: "evs = tevs @ evs'" "r = r'"
        by (simp_all add: process_delta_def tcs_def)
      show ?thesis
      proof (cases tcs)
        case (JList xs)
        with Inr have "items = xs" by simp
        with JList JDict have "delta_fragments delta = items"
          by (simp add: delta_fragments_def tcs_def[symmetric])
        with p e JDict t show ?thesis by (intro tools[of dkvs tevs st2 items evs']) simp_all
      next
        case (JStr x)
        with Inr True have "\<And>y. y \<in> set items \<Longrightarrow> is_str y" "items \<noteq> []" by auto
        from process_tool_calls_not_fragments[OF this, of st2] p obtain e' where
          "evs' = []" "r' = Inl e'" by auto
        with e JDict t show ?thesis by (intro text_only[of dkvs st2]) simp_all
      next
        case (JDict kvs)
        with Inr True have "\<And>y. y \<in> set items \<Longrightarrow> is_str y" "items \<noteq> []" by auto
        from process_tool_calls_not_fragments[OF this, of st2] p obtain e' where
          "evs' = []" "r' = Inl e'" by auto
        with e \<open>delta = JDict dkvs\<close> t show ?thesis by (intro text_only[of dkvs st2]) simp_all
      qed (use Inr in simp_all)
    qed
  qed
qed (use assms fail in \<open>auto simp: process_delta_def\<close>)

lemma process_delta_ordered:
  assumes "process_delta st delta = (evs, r)"
  shows "ordered_from (keys st) evs"
  using assms
proof (cases rule: process_delta_cases)
  case (fail e)
  then show ?thesis by simp
next
  case (text_only dkvs st2)
  then show ?thesis by (simp add: process_text_facts(1))
next
  case (tools dkvs tevs st2 items evs')
  from process_text_facts(1-3)[OF tools(2)] process_tool_calls_ordered[OF tools(3)] tools(4)
  show ?thesis by (simp add: ordered_from_append)
qed

lemma process_delta_state:
  assumes "process_delta st delta = (evs, Inr st')"
  shows "keys st' = keys st @ tool_start_indices evs
         \<and> text_block_started st' =
             (text_block_started st \<or> ContentBlockStart (JInt 0) TextBlock \<in> set evs)
         \<and> last_chunk st' = last_chunk st"
  using assms
proof (cases rule: process_delta_cases)
  case (fail e)
  then show ?thesis by simp
next
  case (text_only dkvs st2)
  with process_text_facts(2-5)[OF text_only(2)] show ?thesis by simp
next
  case (tools dkvs tevs st2 items evs')
  from process_text_facts(2-5)[OF tools(2)] process_tool_calls_state[OF tools(3)] tools(4)
  show ?thesis by auto
qed

lemma process_delta_index:
  assumes "process_delta st delta = (evs, r)" and "e \<in> set evs" and "tool_event_index e = Some i"
  shows "i \<in> set (fragment_indices (delta_fragments delta))"
  using assms(1)
proof (cases rule: process_delta_cases)
  case (fail e)
  with assms(2) show ?thesis by simp
next
  case (text_only dkvs st2)
  from process_text_facts(6)[OF text_only(2) assms(2)] assms(3) show ?thesis by simp
next
  case (tools dkvs tevs st2 items evs')
  from assms(2) tools(4) consider "e \<in> set tevs" | "e \<in> set evs'" by auto
  then show ?thesis
  proof cases
    case 1
    from process_text_facts(6)[OF tools(2) 1] assms(3) show ?thesis by simp
  next
    case 2
    from process_tool_calls_index[OF tools(3) 2] assms(3) tools(5) show ?thesis by simp
  qed
qed

lemma process_delta_covers:
  assumes "process_delta st delta = (evs, Inr st')"
  shows "(\<forall>i. key_mem (keys st) i \<longrightarrow> key_mem (keys st') i)
         \<and> (\<forall>i\<in>set (fragment_indices (delta_fragments delta)). key_mem (keys st') i)"
  using assms
proof (cases rule: process_delta_cases)
  case (fail e)
  then show ?thesis by simp
next
  case (text_only dkvs st2)
  with process_text_facts(3)[OF text_only(2)] show ?thesis by simp
next
  case (tools dkvs tevs st2 items evs')
  from process_text_facts(3)[OF tools(2)] process_tool_calls_covers[OF tools(3)] tools(5)
  show ?thesis by simp
qed


text \<open>One chunk.\<close>

lemma first_item_Inr_dict:
  "first_item choices = Inr (JDict chkvs) \<longleftrightarrow> (\<exists>others. choices = JList (JDict chkvs # others))"
  by (cases choices) (auto simp: first_item_def split: list.splits)

lemma chunk_delta_facts:
  assumes "chunk_delta st chunk = Inr (st1, delta)"
  shows "first_choice_delta chunk = Some delta" and "keys st1 = keys st"
    and "text_block_started st1 = text_block_started st" and "last_chunk st1 = chunk"
proof -
  from assms obtain ckvs chkvs u choices where
    c: "chunk = JDict ckvs" and u: "u = dict_get ckvs ''usage'' JNull"
    and ch: "choices = dict_get ckvs ''choices'' (JList [JDict []])"
    and f: "first_item choices = Inr (JDict chkvs)"
    and d: "delta = dict_get chkvs ''delta'' (JDict [])"
    and s: "st1 = (if truthy u then st\<lparr>last_chunk := chunk, usage := u\<rparr> else st\<lparr>last_chunk := chunk\<rparr>)"
    unfolding chunk_delta_def Let_def bind_err_Inr_iff attr_get_Inr_iff
    by auto
  from f obtain others where "choices = JList (JDict chkvs # others)"
    by (auto simp: first_item_Inr_dict)
  with ch have "dict_get ckvs ''choices'' (JList [JDict []]) = JList (JDict chkvs # others)"
    by simp
  with c d show "first_choice_delta chunk = Some delta"
    by (simp add: first_choice_delta_def)
  from s show "keys st1 = keys st" "text_block_started st1 = text_block_started st"
    "last_chunk st1 = chunk"
    by (simp_all add: keys_def)
qed

lemma delta_fragments_falsy: "\<not> truthy delta \<Longrightarrow> delta_fragments delta = []"
  by (cases delta) (simp_all add: delta_fragments_def dict_get_def)

lemma process_chunk_cases:
  assumes "process_chunk st chunk = (evs, r)"
  obtains (fail) e where "evs = []" "r = Inl e"
  | (skip) st1 delta where "chunk_delta st chunk = Inr (st1, delta)" "\<not> truthy delta"
      "evs = []" "r = Inr st1"
  | (go) st1 delta where "chunk_delta st chunk = Inr (st1, delta)"
      "process_delta st1 delta = (evs, r)"
proof (cases "chunk_delta st chunk")
  case (Inl e)
  with assms show ?thesis by (intro fail[of e]) (simp_all add: process_chunk_def)
next
  case (Inr p)
  obtain st1 delta where p: "p = (st1, delta)" by (cases p)
  show ?thesis
  proof (cases "truthy delta")
    case True
    with assms Inr p show ?thesis by (intro go[of st1 delta]) (simp_all add: process_chunk_def)
  next
    case False
    with assms Inr p show ?thesis by (intro skip[of st1 delta]) (simp_all add: process_chunk_def)
  qed
qed

lemma process_chunk_ordered:
  assumes "process_chunk st chunk = (evs, r)"
  shows "ordered_from (keys st) evs"
  using assms
proof (cases rule: process_chunk_cases)
  case (go st1 delta)
  from process_delta_ordered[OF go(2)] chunk_delta_facts(2)[OF go(1)] show ?thesis by simp
qed simp_all

lemma process_chunk_state:
  assumes "process_chunk st chunk = (evs, Inr st')"
  shows "keys st' = keys st @ tool_start_indices evs
         \<and> text_block_started st' =
             (text_block_started st \<or> ContentBlockStart (JInt 0) TextBlock \<in> set evs)
         \<and> last_chunk st' = chunk"
  using assms
proof (cases rule: process_chunk_cases)
  case (fail e)
  then show ?thesis by simp
next
  case (skip st1 delta)
  with chunk_delta_facts(2-4)[OF skip(1)] show ?thesis by simp
next
  case (go st1 delta)
  from process_delta_state[OF go(2)] chunk_delta_facts(2-4)[OF go(1)] show ?thesis by simp
qed

lemma process_chunk_index:
  assumes "process_chunk st chunk = (evs, r)" and "e \<in> set evs" and "tool_event_index e = Some i"
  shows "i \<in> set (fragment_indices (chunk_fragments chunk))"
  using assms(1)
proof (cases rule: process_chunk_cases)
  case (go st1 delta)
  from process_delta_index[OF go(2) assms(2,3)] chunk_delta_facts(1)[OF go(1)]
  show ?thesis by (simp add: chunk_fragments_def)
qed (use assms(2) in simp_all)

lemma process_chunk_covers:
  assumes "process_chunk st chunk = (evs, Inr st')"
  shows "(\<forall>i. key_mem (keys st) i \<longrightarrow> key_mem (keys st') i)
         \<and> (\<forall>i\<in>set (fragment_indices (chunk_fragments chunk)). key_mem (keys st') i)"
  using assms
proof (cases rule: process_chunk_cases)
  case (fail e)
  then show ?thesis by simp
next
  case (skip st1 delta)
  with chunk_delta_facts(1,2)[OF skip(1)] delta_fragments_falsy[OF skip(2)]
  show ?thesis by (simp add: chunk_fragments_def)
next
  case (go st1 delta)
  from process_delta_covers[OF go(2)] chunk_delta_facts(1,2)[OF go(1)]
  show ?thesis by (simp add: chunk_fragments_def)
qed

text \<open>The loop.\<close>

lemma stream_indices_simps [simp]:
  "stream_indices [] = []"
  "stream_indices (Done # ls) = []"
  "stream_indices (NotData # ls) = stream_indices ls"
  "stream_indices (Unparsable # ls) = stream_indices ls"
  "stream_indices (Parsed chunk # ls) = fragment_indices (chunk_fragments chunk) @ stream_indices ls"
  by (simp_all add: stream_indices_def)

lemma process_lines_Parsed:
  assumes "process_lines st (Parsed chunk # ls) = (evs, r)"
  obtains (stop) e where "process_chunk st chunk = (evs, Inl e)" "r = Inl e"
  | (go) evs1 st1 evs2 where
      "process_chunk st chunk = (evs1, Inr st1)"
      "process_lines st1 ls = (evs2, r)" "evs = evs1 @ evs2"
proof (cases "process_chunk st chunk")
  case (Pair evs1 r1)
  show ?thesis
  proof (cases r1)
    case (Inl e)
    with Pair assms show ?thesis by (intro stop[of e]) simp_all
  next
    case (Inr st1)
    obtain evs2 r2 where p2: "process_lines st1 ls = (evs2, r2)"
      by (cases "process_lines st1 ls")
    with Pair Inr assms show ?thesis by (intro go[of evs1 st1 evs2]) simp_all
  qed
qed

lemma process_lines_ordered:
  "process_lines st ls = (evs, r) \<Longrightarrow> ordered_from (keys st) evs"
proof (induction st ls arbitrary: evs rule: process_lines.induct)
  case (5 st chunk ls)
  from 5(2) show ?case
  proof (cases rule: process_lines_Parsed)
    case (stop e)
    then show ?thesis by (simp add: process_chunk_ordered)
  next
    case (go evs1 st1 evs2)
    from process_chunk_state[OF go(1)] process_chunk_ordered[OF go(1)]
      5(1)[OF go(1)[symmetric] refl go(2)] go(3)
    show ?thesis by (simp add: ordered_from_append)
  qed
qed simp_all

lemma process_lines_state:
  "process_lines st ls = (evs, Inr st') \<Longrightarrow>
   keys st' = keys st @ tool_start_indices evs
   \<and> text_block_started st' =
       (text_block_started st \<or> ContentBlockStart (JInt 0) TextBlock \<in> set evs)
   \<and> last_chunk st' = last_parsed (last_chunk st) ls"
proof (induction st ls arbitrary: evs rule: process_lines.induct)
  case (5 st chunk ls)
  from 5(2) show ?case
  proof (cases rule: process_lines_Parsed)
    case (stop e)
    then show ?thesis by simp
  next
    case (go evs1 st1 evs2)
    from process_chunk_state[OF go(1)] 5(1)[OF go(1)[symmetric] refl go(2)] go(3)
    show ?thesis by auto
  qed
qed simp_all

lemma process_lines_index:
  "process_lines st ls = (evs, r) \<Longrightarrow> e \<in> set evs \<Longrightarrow> tool_event_index e = Some i \<Longrightarrow>
   i \<in> set (stream_indices ls)"
proof (induction st ls arbitrary: evs rule: process_lines.induct)
  case (5 st chunk ls)
  from 5(2) show ?case
  proof (cases rule: process_lines_Parsed)
    case (stop e')
    from process_chunk_index[OF stop(1) 5(3,4)] show ?thesis by simp
  next
    case (go evs1 st1 evs2)
    from 5(3) go(3) consider "e \<in> set evs1" | "e \<in> set evs2" by auto
    then show ?thesis
    proof cases
      case 1
      from process_chunk_index[OF go(1) 1 5(4)] show ?thesis by simp
    next
      case 2
      from 5(1)[OF go(1)[symmetric] refl go(2) 2 5(4)] show ?thesis by simp
    qed
  qed
qed simp_all

lemma process_lines_covers:
  "process_lines st ls = (evs, Inr st') \<Longrightarrow>
   (\<forall>i. key_mem (keys st) i \<longrightarrow> key_mem (keys st') i)
   \<and> (\<forall>i\<in>set (stream_indices ls). key_mem (keys st') i)"
proof (induction st ls arbitrary: evs rule: process_lines.induct)
  case (5 st chunk ls)
  from 5(2) show ?case
  proof (cases rule: process_lines_Parsed)
    case (stop e)
    then show ?thesis by simp
  next
    case (go evs1 st1 evs2)
    from process_chunk_covers[OF go(1)] 5(1)[OF go(1)[symmetric] refl go(2)]
    show ?thesis by auto
  qed
qed simp_all


text \<open>The whole generator.\<close>

lemma closing_stops_eq:
  assumes "keys st = tool_start_indices body"
    and "text_block_started st = (ContentBlockStart (JInt 0) TextBlock \<in> set body)"
  shows "closing_stops st = map ContentBlockStop (closing_indices body)"
proof -
  have m: "map (\<lambda>(idx, a). ContentBlockStop idx) accs = map ContentBlockStop (map fst accs)" for accs :: "(json \<times> accumulator) list"
    by (induction accs) auto
  have e: "tool_call_accumulators st = [] \<longleftrightarrow> tool_start_indices body = []"
    using assms(1) by (metis keys_def map_is_Nil_conv)
  show ?thesis
    using assms e
    by (simp add: closing_stops_def closing_indices_def m keys_def)
qed

lemma bind_err_assoc:
  "bind_err (bind_err m f) g = bind_err m (\<lambda>x. bind_err (f x) g)"
  by (cases m) simp_all

lemma finish_eq:
  "finish st =
     (case bind_err (finish_reason_of (last_chunk st)) map_stop_reason of
        Inl e \<Rightarrow> ([], Some e)
      | Inr stop_reason \<Rightarrow>
          (case attr_get (usage st) ''completion_tokens'' (JInt 0) of
             Inl e \<Rightarrow> (closing_stops st, Some e)
           | Inr output_tokens \<Rightarrow>
               (closing_stops st @ [MessageDelta stop_reason output_tokens, MessageStop], None)))"
  by (simp add: finish_def finish_reason_of_def bind_err_assoc)

lemma finish_complete:
  assumes "finish st = (evs, None)"
  obtains stop_reason output_tokens where
    "evs = closing_stops st @ [MessageDelta stop_reason output_tokens, MessageStop]"
    "bind_err (finish_reason_of (last_chunk st)) map_stop_reason = Inr stop_reason"
proof (cases "bind_err (finish_reason_of (last_chunk st)) map_stop_reason")
  case (Inl e)
  with assms show ?thesis by (simp add: finish_eq)
next
  case (Inr stop_reason)
  with assms obtain output_tokens where
    "evs = closing_stops st @ [MessageDelta stop_reason output_tokens, MessageStop]"
    by (cases "attr_get (usage st) ''completion_tokens'' (JInt 0)") (auto simp: finish_eq)
  with Inr show ?thesis by (intro that[of stop_reason output_tokens])
qed

lemma complete_run:
  assumes "stream_generator message_id payload lines = (evs, None)"
  obtains model body stop_reason output_tokens where
    "evs = [MessageStart message_id model, Ping] @ body
           @ map ContentBlockStop (closing_indices body)
           @ [MessageDelta stop_reason output_tokens, MessageStop]"
    "ordered_from [] body"
    "\<forall>i\<in>set (stream_indices lines). key_mem (tool_start_indices body) i"
    "bind_err (finish_reason_of (last_parsed (JDict []) lines)) map_stop_reason = Inr stop_reason"
proof -
  from assms obtain model where m: "subscript payload ''model'' = Inr model"
    by (cases "subscript payload ''model''") (simp_all add: stream_generator_def)
  obtain body r where p: "process_lines initial_state lines = (body, r)"
    by (cases "process_lines initial_state lines")
  from assms m p obtain st where r: "r = Inr st"
    by (cases r) (simp_all add: stream_generator_def)
  obtain fevs fr where f: "finish st = (fevs, fr)" by (cases "finish st")
  from assms m p r f have fr: "fr = None"
    and evs: "evs = [MessageStart message_id model, Ping] @ body @ fevs"
    by (simp_all add: stream_generator_def)
  from f fr finish_complete obtain stop_reason output_tokens where
    fe: "fevs = closing_stops st @ [MessageDelta stop_reason output_tokens, MessageStop]"
    and sr: "bind_err (finish_reason_of (last_chunk st)) map_stop_reason = Inr stop_reason"
    by blast
  have k0: "keys initial_state = []" "\<not> text_block_started initial_state"
    "last_chunk initial_state = JDict []"
    by (simp_all add: keys_def initial_state_def)
  from process_lines_state[OF p[unfolded r]] k0 have
    st: "keys st = tool_start_indices body"
    "text_block_started st = (ContentBlockStart (JInt 0) TextBlock \<in> set body)"
    "last_chunk st = last_parsed (JDict []) lines"
    by simp_all
  from process_lines_ordered[OF p] k0 have o: "ordered_from [] body" by simp
  from process_lines_covers[OF p[unfolded r]] st(1) have
    c: "\<forall>i\<in>set (stream_indices lines). key_mem (tool_start_indices body) i"
    by simp
  show ?thesis
    using evs fe closing_stops_eq[OF st(1,2)] o c sr st(3)
    by (intro that[of model body stop_reason output_tokens]) simp_all
qed

lemma ordered_from_start_or_delta:
  "ordered_from K es \<Longrightarrow> list_all is_start_or_delta es"
  by (induction K es rule: ordered_from.induct) simp_all

text \<open>
  C3. The claim has the stops of the open tool calls in ascending index order, and
  exactly one of the two branches firing for any stream. The stops follow the order in
  which the indices were opened (the accumulators are iterated in insertion order), and
  neither branch fires when nothing was opened. What holds, for a stream processed to its
  end without an exception: the events are \<open>message_start\<close>, \<open>ping\<close>, a body of starts
  and deltas only, then the stops, then \<open>message_delta\<close> and \<open>message_stop\<close>; the stops
  are one per \<open>tool_use\<close> block opened in the body, in the order of opening, if any was
  opened, and no stop for the text block then; otherwise the single stop for index 0 if
  the text block was opened; otherwise none.
\<close>

theorem stops_close_opened_blocks:
  assumes "stream_generator message_id payload lines = (evs, None)"
  shows "\<exists>model body stop_reason output_tokens.
           evs = [MessageStart message_id model, Ping] @ body
                 @ map ContentBlockStop (closing_indices body)
                 @ [MessageDelta stop_reason output_tokens, MessageStop]
           \<and> list_all is_start_or_delta body"
proof -
  from assms obtain model body stop_reason output_tokens where
    e: "evs = [MessageStart message_id model, Ping] @ body
           @ map ContentBlockStop (closing_indices body)
           @ [MessageDelta stop_reason output_tokens, MessageStop]"
    and o: "ordered_from [] body"
    by (rule complete_run)
  from ordered_from_start_or_delta[OF o] e show ?thesis by blast
qed

text \<open>
  C5. The claim has the stop reason mapped from the last finish reason that is not
  absent. The generator keeps the last parsed chunk and reads the finish reason from it
  alone: a later chunk without a finish reason erases an earlier one. What holds, for a
  stream processed to its end without an exception: the last two events are
  \<open>message_delta\<close> and \<open>message_stop\<close>, and the stop reason is \<open>map_stop_reason\<close> of the
  finish reason of the chunk parsed last before the terminator (of \<open>{}\<close> if no chunk was
  parsed), absent or not.
\<close>

theorem stop_reason_of_last_parsed_chunk:
  assumes "stream_generator message_id payload lines = (evs, None)"
  shows "\<exists>front stop_reason output_tokens.
           evs = front @ [MessageDelta stop_reason output_tokens, MessageStop]
           \<and> bind_err (finish_reason_of (last_parsed (JDict []) lines)) map_stop_reason
               = Inr stop_reason"
proof -
  from assms obtain model body stop_reason output_tokens where
    e: "evs = [MessageStart message_id model, Ping] @ body
           @ map ContentBlockStop (closing_indices body)
           @ [MessageDelta stop_reason output_tokens, MessageStop]"
    and s: "bind_err (finish_reason_of (last_parsed (JDict []) lines)) map_stop_reason = Inr stop_reason"
    by (rule complete_run)
  from e have "evs = ([MessageStart message_id model, Ping] @ body
           @ map ContentBlockStop (closing_indices body))
           @ [MessageDelta stop_reason output_tokens, MessageStop]"
    by simp
  with s show ?thesis by blast
qed


lemma finish_no_tool_event:
  assumes "finish st = (fevs, fr)" and "e \<in> set fevs"
  shows "tool_event_index e = None"
proof -
  have c: "e \<in> set (closing_stops st) \<Longrightarrow> tool_event_index e = None"
    by (auto simp: closing_stops_def split: if_splits)
  from assms show ?thesis
    by (auto simp: finish_eq c split: sum.splits)
qed

lemma stream_generator_events:
  assumes "e \<in> set (fst (stream_generator message_id payload lines))"
    and "tool_event_index e = Some i"
  shows "i \<in> set (stream_indices lines)"
proof (cases "subscript payload ''model''")
  case (Inl err)
  with assms show ?thesis by (simp add: stream_generator_def)
next
  case (Inr model)
  obtain body r where p: "process_lines initial_state lines = (body, r)"
    by (cases "process_lines initial_state lines")
  have b: "e \<in> set body \<Longrightarrow> ?thesis"
    using process_lines_index[OF p _ assms(2)] by simp
  show ?thesis
  proof (cases r)
    case (Inl err)
    with assms Inr p b show ?thesis
      by (auto simp: stream_generator_def)
  next
    case st: (Inr st)
    obtain fevs fr where f: "finish st = (fevs, fr)" by (cases "finish st")
    from assms(1) Inr p st f have "e \<in> set [MessageStart message_id model, Ping] \<or> e \<in> set body \<or> e \<in> set fevs"
      by (auto simp: stream_generator_def)
    with b finish_no_tool_event[OF f] assms(2) show ?thesis by auto
  qed
qed

text \<open>
  C4. The claim has no \<open>tool_use\<close> start and no \<open>input_json_delta\<close> at index 0, also
  when the backend tags a tool call with 0. The generator has no renumbering: it yields
  the backend's index as it is. What holds, for every stream, cut short by an exception
  or not: the index of every \<open>tool_use\<close> start and of every \<open>input_json_delta\<close> is the
  index of a tool-call fragment of a chunk before the terminator; so none of these events
  has index 0 when no such fragment is tagged 0.
\<close>

theorem tool_events_carry_backend_index:
  "(\<forall>e\<in>set (fst (stream_generator message_id payload lines)).
      \<forall>i. tool_event_index e = Some i \<longrightarrow> i \<in> set (stream_indices lines))
   \<and> (JInt 0 \<notin> set (stream_indices lines) \<longrightarrow>
        (\<forall>e\<in>set (fst (stream_generator message_id payload lines)).
           tool_event_index e \<noteq> Some (JInt 0)))"
  using stream_generator_events by blast

lemma key_mem_py_eq: "py_eq a b \<Longrightarrow> key_mem K a = key_mem K b"
  by (induction K) (auto intro: py_eq_trans py_eq_sym)

lemma ordered_from_opened:
  "ordered_from K es \<Longrightarrow> key_mem K i \<Longrightarrow>
   list_all (\<lambda>e. \<not> tool_start_for i e \<and> \<not> stop_for i e) es"
proof (induction K es rule: ordered_from.induct)
  case (2 K idx a b es)
  then show ?case using key_mem_py_eq[of idx i K] by auto
qed simp_all

lemma no_start_no_key:
  "list_all (\<lambda>e. \<not> tool_start_for i e) es \<Longrightarrow> \<not> key_mem (tool_start_indices es) i"
  by (induction es rule: tool_start_indices.induct) simp_all

lemma ordered_from_split:
  "ordered_from K body \<Longrightarrow> \<not> key_mem K i \<Longrightarrow> key_mem (tool_start_indices body) i \<Longrightarrow>
   \<exists>pre k a b mid.
     body = pre @ ContentBlockStart k (ToolUseBlock a b) # mid \<and> py_eq k i
     \<and> list_all (\<lambda>e. \<not> tool_event_for i e) pre
     \<and> list_all (\<lambda>e. \<not> tool_start_for i e \<and> \<not> stop_for i e) mid"
proof (induction K body rule: ordered_from.induct)
  case (1 K)
  then show ?case by simp
next
  case (2 K idx a b es)
  show ?case
  proof (cases "py_eq idx i")
    case True
    from 2(2) have "ordered_from (K @ [idx]) es" by simp
    from ordered_from_opened[OF this, of i] True
    have "list_all (\<lambda>e. \<not> tool_start_for i e \<and> \<not> stop_for i e) es" by simp
    with True show ?thesis by (intro exI[of _ "[]"] exI[of _ idx] exI[of _ a] exI[of _ b] exI[of _ es]) simp
  next
    case False
    with 2 obtain pre k a' b' mid where
      "es = pre @ ContentBlockStart k (ToolUseBlock a' b') # mid" "py_eq k i"
      "list_all (\<lambda>e. \<not> tool_event_for i e) pre"
      "list_all (\<lambda>e. \<not> tool_start_for i e \<and> \<not> stop_for i e) mid"
      by auto
    with False show ?thesis
      by (intro exI[of _ "ContentBlockStart idx (ToolUseBlock a b) # pre"] exI[of _ k]
                exI[of _ a'] exI[of _ b'] exI[of _ mid])
         (simp add: tool_event_for_def)
  qed
next
  case (3 K idx es)
  then obtain pre k a b mid where
    "es = pre @ ContentBlockStart k (ToolUseBlock a b) # mid" "py_eq k i"
    "list_all (\<lambda>e. \<not> tool_event_for i e) pre"
    "list_all (\<lambda>e. \<not> tool_start_for i e \<and> \<not> stop_for i e) mid"
    by auto
  then show ?case
    by (intro exI[of _ "ContentBlockStart idx TextBlock # pre"] exI[of _ k]
              exI[of _ a] exI[of _ b] exI[of _ mid])
       (simp add: tool_event_for_def)
next
  case (4 K idx s es)
  then have n: "\<not> py_eq idx i" using key_mem_py_eq[of idx i K] by auto
  from 4 obtain pre k a b mid where
    "es = pre @ ContentBlockStart k (ToolUseBlock a b) # mid" "py_eq k i"
    "list_all (\<lambda>e. \<not> tool_event_for i e) pre"
    "list_all (\<lambda>e. \<not> tool_start_for i e \<and> \<not> stop_for i e) mid"
    by auto
  with n show ?case
    by (intro exI[of _ "ContentBlockDelta idx (InputJsonDelta s) # pre"] exI[of _ k]
              exI[of _ a] exI[of _ b] exI[of _ mid])
       (simp add: tool_event_for_def)
next
  case (5 K idx t es)
  then obtain pre k a b mid where
    "es = pre @ ContentBlockStart k (ToolUseBlock a b) # mid" "py_eq k i"
    "list_all (\<lambda>e. \<not> tool_event_for i e) pre"
    "list_all (\<lambda>e. \<not> tool_start_for i e \<and> \<not> stop_for i e) mid"
    by auto
  then show ?case
    by (intro exI[of _ "ContentBlockDelta idx (TextDelta t) # pre"] exI[of _ k]
              exI[of _ a] exI[of _ b] exI[of _ mid])
       (simp add: tool_event_for_def)
qed simp_all


lemma stops_not_for:
  "\<not> key_mem K i \<Longrightarrow> list_all (\<lambda>e. \<not> tool_event_for i e) (map ContentBlockStop K)"
  by (induction K) (simp_all add: tool_event_for_def)

text \<open>Every run, cut short by an exception or not.\<close>

lemma key_mem_tool_start:
  "key_mem (tool_start_indices es) i = list_ex (tool_start_for i) es"
  by (induction es rule: tool_start_indices.induct) simp_all

lemma starts_count:
  "length (filter (tool_start_for i) es)
     = length (filter (\<lambda>k. py_eq k i) (tool_start_indices es))"
  by (induction es rule: tool_start_indices.induct) simp_all

lemma stops_count:
  "length (filter (stop_for i) (map ContentBlockStop K)) = length (filter (\<lambda>k. py_eq k i) K)"
  by (induction K) simp_all

lemma ordered_from_count:
  "ordered_from K es \<Longrightarrow>
   length (filter (\<lambda>k. py_eq k i) (tool_start_indices es)) \<le> (if key_mem K i then 0 else 1)"
proof (induction K es rule: ordered_from.induct)
  case (2 K idx a b es)
  then show ?case using key_mem_py_eq[of idx i K] by (auto split: if_splits)
qed simp_all

lemma start_or_delta_no_stop:
  "is_start_or_delta e \<Longrightarrow> \<not> is_stop e \<and> \<not> stop_for i e"
  by (cases e) simp_all

lemma ordered_from_no_stop:
  "ordered_from K es \<Longrightarrow> e \<in> set es \<Longrightarrow> \<not> is_stop e \<and> \<not> stop_for i e"
  using ordered_from_start_or_delta[of K es] start_or_delta_no_stop
  by (auto simp: list_all_iff)

lemma split_at_front:
  "ys @ zs = pre @ e # post \<Longrightarrow> e \<notin> set zs \<Longrightarrow> \<exists>q. ys = pre @ e # q \<and> post = q @ zs"
proof (induction ys arbitrary: pre)
  case Nil
  then show ?case by auto
next
  case (Cons y ys)
  then show ?case by (cases pre) auto
qed

lemma split_in_middle:
  "xs @ ys @ zs = pre @ e # post \<Longrightarrow> e \<notin> set xs \<Longrightarrow> e \<notin> set zs \<Longrightarrow>
   \<exists>p q. pre = xs @ p \<and> ys = p @ e # q \<and> post = q @ zs"
proof (induction xs arbitrary: pre)
  case Nil
  then show ?case using split_at_front[of ys zs pre e post] by auto
next
  case (Cons x xs)
  then show ?case by (cases pre) auto
qed

lemma ordered_from_delta_after_start:
  assumes "ordered_from [] (p @ e # q)" and "json_delta_for i e"
  shows "list_ex (tool_start_for i) p"
proof -
  from assms(2) obtain idx s where e: "e = ContentBlockDelta idx (InputJsonDelta s)" and k: "py_eq idx i"
    by (cases "(i, e)" rule: json_delta_for.cases) auto
  from assms(1) have "ordered_from (tool_start_indices p) (e # q)"
    by (simp add: ordered_from_append)
  with e have "key_mem (tool_start_indices p) idx" by simp
  with k have "key_mem (tool_start_indices p) i" by (simp add: key_mem_py_eq)
  then show ?thesis by (simp add: key_mem_tool_start)
qed

lemma process_lines_prefix:
  "process_lines st ls1 = (evs1, Inr st1) \<Longrightarrow> process_lines st (ls1 @ ls2) = (evs, r) \<Longrightarrow>
   \<exists>rest. evs = evs1 @ rest"
proof (induction st ls1 arbitrary: evs1 evs rule: process_lines.induct)
  case (5 st chunk ls)
  from 5(2) show ?case
  proof (cases rule: process_lines_Parsed)
    case (stop e)
    then show ?thesis by simp
  next
    case (go e1 s1 e2)
    from 5(3) have "process_lines st (Parsed chunk # (ls @ ls2)) = (evs, r)" by simp
    then show ?thesis
    proof (cases rule: process_lines_Parsed)
      case (stop e)
      with go show ?thesis by simp
    next
      case g: (go e1' s1' e2')
      with go have eq: "e1' = e1" "s1' = s1" by simp_all
      from 5(1)[OF go(1)[symmetric] refl go(2) g(2)[unfolded eq]] go(3) g(3) eq
      show ?thesis by auto
    qed
  qed
qed simp_all

lemma finish_shape:
  assumes "finish st = (fevs, fr)"
  shows "(fevs = [] \<and> fr \<noteq> None)
       \<or> (\<exists>tail. fevs = closing_stops st @ tail
             \<and> ((tail = [] \<and> fr \<noteq> None)
                 \<or> (\<exists>stop_reason output_tokens.
                       tail = [MessageDelta stop_reason output_tokens, MessageStop])))"
  using assms by (auto simp: finish_eq split: sum.splits)

lemma run_shape:
  assumes "stream_generator message_id payload lines = (evs, r)"
  obtains (no_model) "evs = []" "r \<noteq> None"
  | (cut) model body rr where
      "evs = [MessageStart message_id model, Ping] @ body" "r \<noteq> None"
      "process_lines initial_state lines = (body, rr)" "ordered_from [] body"
  | (closed) model body st tail where
      "evs = [MessageStart message_id model, Ping] @ body
             @ map ContentBlockStop (closing_indices body) @ tail"
      "process_lines initial_state lines = (body, Inr st)" "ordered_from [] body"
      "\<forall>i\<in>set (stream_indices lines). key_mem (tool_start_indices body) i"
      "tail = [] \<or> (\<exists>stop_reason output_tokens.
                       tail = [MessageDelta stop_reason output_tokens, MessageStop])"
proof (cases "subscript payload ''model''")
  case (Inl e)
  with assms show ?thesis by (intro no_model) (auto simp: stream_generator_def)
next
  case (Inr model)
  obtain body rr where p: "process_lines initial_state lines = (body, rr)"
    by (cases "process_lines initial_state lines")
  have k0: "keys initial_state = []" "\<not> text_block_started initial_state"
    by (simp_all add: keys_def initial_state_def)
  from process_lines_ordered[OF p] k0 have o: "ordered_from [] body" by simp
  show ?thesis
  proof (cases rr)
    case (Inl e)
    with assms Inr p o show ?thesis
      by (intro cut[of model body rr]) (auto simp: stream_generator_def)
  next
    case st: (Inr st)
    obtain fevs fr where f: "finish st = (fevs, fr)" by (cases "finish st")
    from assms Inr p st f have fr: "fr = r"
      and evs: "evs = [MessageStart message_id model, Ping] @ body @ fevs"
      by (simp_all add: stream_generator_def)
    from process_lines_state[OF p[unfolded st]] k0 have
      s: "keys st = tool_start_indices body"
      "text_block_started st = (ContentBlockStart (JInt 0) TextBlock \<in> set body)"
      by simp_all
    from process_lines_covers[OF p[unfolded st]] s(1) have
      c: "\<forall>i\<in>set (stream_indices lines). key_mem (tool_start_indices body) i"
      by simp
    from finish_shape[OF f] consider
      (early) "fevs = []" "fr \<noteq> None"
      | (stops) tail where "fevs = closing_stops st @ tail"
          "tail = [] \<or> (\<exists>stop_reason output_tokens.
                       tail = [MessageDelta stop_reason output_tokens, MessageStop])"
      by blast
    then show ?thesis
    proof cases
      case early
      with evs fr p o show ?thesis by (intro cut[of model body rr]) simp_all
    next
      case stops
      with evs closing_stops_eq[OF s] p st o c show ?thesis
        by (intro closed[of model body tail st]) simp_all
    qed
  qed
qed


lemma stops_no_start [simp]:
  "filter (tool_start_for i) (map ContentBlockStop K) = []"
  "filter (json_delta_for i) (map ContentBlockStop K) = []"
  "list_all (\<lambda>e. \<not> is_start_or_delta e) (map ContentBlockStop K)"
  by (induction K) simp_all

lemma tail_simps:
  assumes "tail = [] \<or> (\<exists>stop_reason output_tokens.
                       tail = [MessageDelta stop_reason output_tokens, MessageStop])"
  shows "filter (tool_start_for i) tail = []" "filter (stop_for i) tail = []"
    "filter (json_delta_for i) tail = []" "list_all (\<lambda>e. \<not> is_start_or_delta e) tail"
    "list_all (\<lambda>e. \<not> tool_event_for i e) tail"
  using assms by (auto simp: tool_event_for_def)

lemma body_no_stop:
  "ordered_from K body \<Longrightarrow> filter (stop_for i) body = [] \<and> filter is_stop body = []"
  using ordered_from_no_stop[of K body] by (auto simp: filter_empty_conv)

lemma closing_indices_count:
  assumes "ordered_from [] body"
  shows "length (filter (\<lambda>k. py_eq k i) (closing_indices body)) \<le> 1"
  using ordered_from_count[OF assms, of i] by (simp add: closing_indices_def)

lemma run_starts_once:
  assumes "stream_generator message_id payload lines = (evs, r)"
  shows "length (filter (tool_start_for i) evs) \<le> 1"
  using assms
proof (cases rule: run_shape)
  case no_model
  then show ?thesis by simp
next
  case (cut model body rr)
  with ordered_from_count[OF cut(4), of i] show ?thesis by (simp add: starts_count)
next
  case (closed model body st tail)
  with ordered_from_count[OF closed(3), of i] tail_simps(1)[OF closed(5), of i]
  show ?thesis by (simp add: starts_count)
qed

lemma run_stops_once:
  assumes "stream_generator message_id payload lines = (evs, r)"
  shows "length (filter (stop_for i) evs) \<le> 1"
  using assms
proof (cases rule: run_shape)
  case no_model
  then show ?thesis by simp
next
  case (cut model body rr)
  with body_no_stop[OF cut(4), of i] show ?thesis by simp
next
  case (closed model body st tail)
  have "length (filter (stop_for i) (map ContentBlockStop (closing_indices body))) \<le> 1"
    by (simp only: stops_count closing_indices_count[OF closed(3)])
  with closed body_no_stop[OF closed(3), of i] tail_simps(2)[OF closed(5), of i]
  show ?thesis by simp
qed

lemma run_delta_after_start:
  assumes "stream_generator message_id payload lines = (evs, r)"
    and "evs = pre @ e # post" and "json_delta_for i e"
  shows "list_ex (tool_start_for i) pre"
  using assms(1)
proof (cases rule: run_shape)
  case no_model
  with assms(2) show ?thesis by simp
next
  case (cut model body rr)
  from assms(3) have n: "e \<notin> set [MessageStart message_id model, Ping]" "e \<notin> set []"
    by auto
  from cut(1) assms(2) have "[MessageStart message_id model, Ping] @ body @ [] = pre @ e # post"
    by simp
  from split_in_middle[OF this n] obtain p q where
    "pre = [MessageStart message_id model, Ping] @ p" "body = p @ e # q" by blast
  with ordered_from_delta_after_start[of p e q i] cut(4) assms(3) show ?thesis by simp
next
  case (closed model body st tail)
  have "\<not> json_delta_for i x" if "x \<in> set (map ContentBlockStop (closing_indices body) @ tail)" for x
    using that closed(5) by auto
  with assms(3) have n: "e \<notin> set [MessageStart message_id model, Ping]"
    "e \<notin> set (map ContentBlockStop (closing_indices body) @ tail)"
    by auto
  from closed(1) assms(2) have "[MessageStart message_id model, Ping] @ body
      @ (map ContentBlockStop (closing_indices body) @ tail) = pre @ e # post"
    by simp
  from split_in_middle[OF this n] obtain p q where
    "pre = [MessageStart message_id model, Ping] @ p" "body = p @ e # q" by blast
  with ordered_from_delta_after_start[of p e q i] closed(3) assms(3) show ?thesis by simp
qed

lemma run_nothing_after_stop:
  assumes "stream_generator message_id payload lines = (evs, r)"
    and "evs = pre @ e # post" and "is_stop e"
  shows "list_all (\<lambda>e. \<not> is_start_or_delta e) post"
  using assms(1)
proof (cases rule: run_shape)
  case no_model
  with assms(2) show ?thesis by simp
next
  case (cut model body rr)
  from assms(2) have "e \<in> set evs" by simp
  with cut(1) assms(3) ordered_from_no_stop[OF cut(4), of e] show ?thesis by auto
next
  case (closed model body st tail)
  from assms(3) ordered_from_no_stop[OF closed(3), of e]
  have n: "e \<notin> set ([MessageStart message_id model, Ping] @ body)" "e \<notin> set []"
    by auto
  from closed(1) assms(2) have "([MessageStart message_id model, Ping] @ body)
      @ (map ContentBlockStop (closing_indices body) @ tail) @ [] = pre @ e # post"
    by simp
  from split_in_middle[OF this n] obtain p q where
    q: "map ContentBlockStop (closing_indices body) @ tail = p @ e # q" "post = q @ []" by blast
  have "list_all (\<lambda>e. \<not> is_start_or_delta e) (map ContentBlockStop (closing_indices body) @ tail)"
    using tail_simps(4)[OF closed(5)] by simp
  with q show ?thesis by simp
qed

lemma run_processed_start:
  assumes "stream_generator message_id payload lines = (evs, r)"
    and "lines = ls1 @ ls2" and "process_lines initial_state ls1 = (evs1, Inr st1)"
    and "evs \<noteq> []" and "i \<in> set (stream_indices ls1)"
  shows "list_ex (tool_start_for i) evs"
proof -
  have k0: "keys initial_state = []" by (simp add: keys_def initial_state_def)
  from process_lines_state[OF assms(3)] k0 have "keys st1 = tool_start_indices evs1" by simp
  with process_lines_covers[OF assms(3)] assms(5) have "key_mem (tool_start_indices evs1) i"
    by simp
  then have s: "list_ex (tool_start_for i) evs1" by (simp add: key_mem_tool_start)
  have b: "list_ex (tool_start_for i) body"
    if "process_lines initial_state lines = (body, rr)" for body rr
  proof -
    from process_lines_prefix[OF assms(3) that[unfolded assms(2)]] obtain rest where
      "body = evs1 @ rest" by blast
    with s show ?thesis by simp
  qed
  from assms(1) show ?thesis
  proof (cases rule: run_shape)
    case no_model
    with assms(4) show ?thesis by simp
  next
    case (cut model body rr)
    with b[OF cut(3)] show ?thesis by simp
  next
    case (closed model body st tail)
    with b[OF closed(2)] show ?thesis by simp
  qed
qed

lemma run_closed_lifecycle:
  assumes "stream_generator message_id payload lines = (evs, r)"
    and "i \<in> set (stream_indices lines)"
    and "r = None \<or> list_ex is_stop evs"
  shows "\<exists>k a b pre mid post.
           evs = pre @ ContentBlockStart k (ToolUseBlock a b) # mid @ ContentBlockStop k # post
           \<and> py_eq k i
           \<and> list_all (\<lambda>e. \<not> tool_event_for i e) pre
           \<and> list_all (\<lambda>e. \<not> tool_start_for i e \<and> \<not> stop_for i e) mid
           \<and> list_all (\<lambda>e. \<not> tool_event_for i e) post"
  using assms(1)
proof (cases rule: run_shape)
  case no_model
  with assms(3) show ?thesis by simp
next
  case (cut model body rr)
  from body_no_stop[OF cut(4), of i] have "\<not> list_ex is_stop body"
    by (simp add: list_ex_iff filter_empty_conv)
  with cut assms(3) show ?thesis by simp
next
  case (closed model body st tail)
  note e = closed(1) and o = closed(3)
  from closed(4) assms(2) have m: "key_mem (tool_start_indices body) i" by simp
  from ordered_from_split[OF o _ m] obtain pre k a b mid where
    b: "body = pre @ ContentBlockStart k (ToolUseBlock a b) # mid"
    and k: "py_eq k i"
    and p: "list_all (\<lambda>e. \<not> tool_event_for i e) pre"
    and d: "list_all (\<lambda>e. \<not> tool_start_for i e \<and> \<not> stop_for i e) mid"
    by auto
  from p have "list_all (\<lambda>e. \<not> tool_start_for i e) pre"
    by (simp add: list_all_iff tool_event_for_def)
  then have np: "\<not> key_mem (tool_start_indices pre) i" by (rule no_start_no_key)
  from d have "list_all (\<lambda>e. \<not> tool_start_for i e) mid"
    by (simp add: list_all_iff)
  then have nm: "\<not> key_mem (tool_start_indices mid) i" by (rule no_start_no_key)
  from b have ci: "closing_indices body = tool_start_indices pre @ k # tool_start_indices mid"
    by (simp add: closing_indices_def)
  define pre' where "pre' = [MessageStart message_id model, Ping] @ pre"
  define mid' where "mid' = mid @ map ContentBlockStop (tool_start_indices pre)"
  define post' where "post' = map ContentBlockStop (tool_start_indices mid) @ tail"
  have 1: "evs = pre' @ ContentBlockStart k (ToolUseBlock a b) # mid' @ ContentBlockStop k # post'"
    using e b ci by (simp add: pre'_def mid'_def post'_def)
  have 2: "list_all (\<lambda>e. \<not> tool_event_for i e) pre'"
    using p by (simp add: pre'_def tool_event_for_def)
  have "list_all (\<lambda>e. \<not> tool_start_for i e \<and> \<not> stop_for i e)
          (map ContentBlockStop (tool_start_indices pre))"
    using stops_not_for[OF np] by (auto simp: list_all_iff tool_event_for_def)
  with d have 3: "list_all (\<lambda>e. \<not> tool_start_for i e \<and> \<not> stop_for i e) mid'"
    by (simp add: mid'_def)
  have 4: "list_all (\<lambda>e. \<not> tool_event_for i e) post'"
    using stops_not_for[OF nm] tail_simps(5)[OF closed(5), of i] by (simp add: post'_def)
  show ?thesis
    apply (rule exI[of _ k])
    apply (rule exI[of _ a])
    apply (rule exI[of _ b])
    apply (rule exI[of _ pre'])
    apply (rule exI[of _ mid'])
    apply (rule exI[of _ post'])
    apply (intro conjI)
        apply (rule 1)
       apply (rule k)
      apply (rule 2)
     apply (rule 3)
    apply (rule 4)
    done
qed

text \<open>
  C2. The claim has exactly one \<open>content_block_start\<close> and a stop for every tool-call
  index. The text block's events carry index 0 as well, so text followed by a tool call
  tagged 0 gives two starts with index 0; and a run cut short by an exception before the
  closing events yields no stop, and no start for the fragments it did not reach. What
  holds, for every stream, cut short or not, and every index \<open>i\<close>, compared as a dict
  key: at most one \<open>tool_use\<close> start for \<open>i\<close> and at most one stop for \<open>i\<close> are
  yielded; every \<open>input_json_delta\<close> for \<open>i\<close> comes after a \<open>tool_use\<close> start for
  \<open>i\<close>; after a \<open>content_block_stop\<close> no start and no delta is yielded; and if the loop
  gets through the first lines \<open>ls1\<close> without an exception and \<open>message_start\<close> was
  yielded, every tool-call index of \<open>ls1\<close> has its \<open>tool_use\<close> start. When the closing
  events are reached (the run ends without an exception, or yields some
  \<open>content_block_stop\<close>), then for every index \<open>i\<close> of a tool-call fragment before the
  terminator the events are \<open>pre\<close>, the start of a \<open>tool_use\<close> block whose index
  equals \<open>i\<close>, \<open>mid\<close>, the stop with that index, \<open>post\<close>, where \<open>pre\<close> and \<open>post\<close>
  hold no \<open>tool_use\<close> start, no \<open>input_json_delta\<close> and no stop for \<open>i\<close>, and \<open>mid\<close>
  holds no \<open>tool_use\<close> start and no stop for \<open>i\<close>: exactly one start, then the deltas,
  then exactly one stop.
\<close>

theorem tool_block_lifecycle:
  assumes "stream_generator message_id payload lines = (evs, r)"
  shows "length (filter (tool_start_for i) evs) \<le> 1
     \<and> length (filter (stop_for i) evs) \<le> 1
     \<and> (\<forall>pre e post. evs = pre @ e # post \<and> json_delta_for i e \<longrightarrow>
           list_ex (tool_start_for i) pre)
     \<and> (\<forall>pre e post. evs = pre @ e # post \<and> is_stop e \<longrightarrow>
           list_all (\<lambda>e. \<not> is_start_or_delta e) post)
     \<and> (\<forall>ls1 ls2 evs1 st1.
           lines = ls1 @ ls2 \<and> process_lines initial_state ls1 = (evs1, Inr st1)
           \<and> evs \<noteq> [] \<and> i \<in> set (stream_indices ls1) \<longrightarrow>
           list_ex (tool_start_for i) evs)
     \<and> (i \<in> set (stream_indices lines) \<and> (r = None \<or> list_ex is_stop evs) \<longrightarrow>
          (\<exists>k a b pre mid post.
             evs = pre @ ContentBlockStart k (ToolUseBlock a b) # mid @ ContentBlockStop k # post
             \<and> py_eq k i
             \<and> list_all (\<lambda>e. \<not> tool_event_for i e) pre
             \<and> list_all (\<lambda>e. \<not> tool_start_for i e \<and> \<not> stop_for i e) mid
             \<and> list_all (\<lambda>e. \<not> tool_event_for i e) post))"
proof (intro conjI allI impI)
  show "length (filter (tool_start_for i) evs) \<le> 1"
    using assms by (rule run_starts_once)
  show "length (filter (stop_for i) evs) \<le> 1"
    using assms by (rule run_stops_once)
next
  fix pre e post
  assume "evs = pre @ e # post \<and> json_delta_for i e"
  then show "list_ex (tool_start_for i) pre"
    using run_delta_after_start[OF assms, of pre e post i] by simp
next
  fix pre e post
  assume "evs = pre @ e # post \<and> is_stop e"
  then show "list_all (\<lambda>e. \<not> is_start_or_delta e) post"
    using run_nothing_after_stop[OF assms, of pre e post] by simp
next
  fix ls1 ls2 evs1 st1
  assume "lines = ls1 @ ls2 \<and> process_lines initial_state ls1 = (evs1, Inr st1)
           \<and> evs \<noteq> [] \<and> i \<in> set (stream_indices ls1)"
  then show "list_ex (tool_start_for i) evs"
    using run_processed_start[OF assms, of ls1 ls2 evs1 st1 i] by simp
next
  assume "i \<in> set (stream_indices lines) \<and> (r = None \<or> list_ex is_stop evs)"
  then show "\<exists>k a b pre mid post.
             evs = pre @ ContentBlockStart k (ToolUseBlock a b) # mid @ ContentBlockStop k # post
             \<and> py_eq k i
             \<and> list_all (\<lambda>e. \<not> tool_event_for i e) pre
             \<and> list_all (\<lambda>e. \<not> tool_start_for i e \<and> \<not> stop_for i e) mid
             \<and> list_all (\<lambda>e. \<not> tool_event_for i e) post"
    using run_closed_lifecycle[OF assms, of i] by simp
qed

subsection \<open>The streams of the examples\<close>

lemma text_then_tool_eval:
  "stream_generator ''id1'' example_payload text_then_tool_stream = (text_then_tool_events, None)"
  by code_simp

lemma two_tools_eval:
  "stream_generator ''id1'' example_payload two_tools_stream = (two_tools_events, None)"
  by code_simp

lemma length_then_absent_eval:
  "stream_generator ''id1'' example_payload length_then_absent_stream
     = (length_then_absent_events, None)"
  by code_simp

lemma two_tools_indices: "stream_indices two_tools_stream = [JInt 2, JInt 1, JInt 1]"
  by code_simp

lemma text_then_tool_indices: "stream_indices text_then_tool_stream = [JInt 0]"
  by code_simp

lemma tool_then_usage_eval:
  "stream_generator ''id1'' example_payload tool_then_usage_stream
     = (tool_then_usage_events, Some IndexError)"
  by code_simp

theorem tool_block_lifecycle_witness:
  "stream_generator ''id1'' example_payload two_tools_stream = (two_tools_events, None)
   \<and> JInt 1 \<in> set (stream_indices two_tools_stream)
   \<and> (\<exists>k a b pre mid post.
         two_tools_events
           = pre @ ContentBlockStart k (ToolUseBlock a b) # mid @ ContentBlockStop k # post
         \<and> py_eq k (JInt 1)
         \<and> list_all (\<lambda>e. \<not> tool_event_for (JInt 1) e) pre
         \<and> list_all (\<lambda>e. \<not> tool_start_for (JInt 1) e \<and> \<not> stop_for (JInt 1) e) mid
         \<and> list_all (\<lambda>e. \<not> tool_event_for (JInt 1) e) post)
   \<and> stream_generator ''id1'' example_payload tool_then_usage_stream
       = (tool_then_usage_events, Some IndexError)
   \<and> length (filter (tool_start_for (JInt 1)) tool_then_usage_events) \<le> 1
   \<and> length (filter (stop_for (JInt 1)) tool_then_usage_events) \<le> 1
   \<and> json_delta_for (JInt 1) (tool_then_usage_events ! 3)
   \<and> list_ex (tool_start_for (JInt 1)) (take 3 tool_then_usage_events)
   \<and> process_lines initial_state [Parsed (tool_chunk 1 ''{}'')]
       = (drop 2 tool_then_usage_events,
          Inr (initial_state\<lparr>tool_call_accumulators :=
                 [(JInt 1, \<lparr>acc_id = JStr ''call'', acc_name = JStr ''f'', acc_args = ''{}''\<rparr>)],
               last_chunk := tool_chunk 1 ''{}''\<rparr>))
   \<and> list_ex (tool_start_for (JInt 1)) tool_then_usage_events"
proof -
  have i: "JInt 1 \<in> set (stream_indices two_tools_stream)"
    by (simp add: two_tools_indices)
  note full = tool_block_lifecycle[OF two_tools_eval, of "JInt 1"]
  note cut = tool_block_lifecycle[OF tool_then_usage_eval, of "JInt 1"]
  from full i have 1: "\<exists>k a b pre mid post.
         two_tools_events
           = pre @ ContentBlockStart k (ToolUseBlock a b) # mid @ ContentBlockStop k # post
         \<and> py_eq k (JInt 1)
         \<and> list_all (\<lambda>e. \<not> tool_event_for (JInt 1) e) pre
         \<and> list_all (\<lambda>e. \<not> tool_start_for (JInt 1) e \<and> \<not> stop_for (JInt 1) e) mid
         \<and> list_all (\<lambda>e. \<not> tool_event_for (JInt 1) e) post"
    by simp
  from cut have 2: "length (filter (tool_start_for (JInt 1)) tool_then_usage_events) \<le> 1"
    and 3: "length (filter (stop_for (JInt 1)) tool_then_usage_events) \<le> 1"
    by simp_all
  have s: "tool_then_usage_events
             = take 3 tool_then_usage_events @ tool_then_usage_events ! 3 # []"
    by code_simp
  have d: "json_delta_for (JInt 1) (tool_then_usage_events ! 3)"
    by code_simp
  from cut s d have 4: "list_ex (tool_start_for (JInt 1)) (take 3 tool_then_usage_events)"
    by blast
  have l: "tool_then_usage_stream = [Parsed (tool_chunk 1 ''{}'')] @ [Parsed usage_chunk, Done]"
    by (simp add: tool_then_usage_stream_def)
  have p: "process_lines initial_state [Parsed (tool_chunk 1 ''{}'')]
       = (drop 2 tool_then_usage_events,
          Inr (initial_state\<lparr>tool_call_accumulators :=
                 [(JInt 1, \<lparr>acc_id = JStr ''call'', acc_name = JStr ''f'', acc_args = ''{}''\<rparr>)],
               last_chunk := tool_chunk 1 ''{}''\<rparr>))"
    by code_simp
  have n: "tool_then_usage_events \<noteq> []" by (simp add: tool_then_usage_events_def)
  have m: "JInt 1 \<in> set (stream_indices [Parsed (tool_chunk 1 ''{}'')])"
    by code_simp
  from cut l p n m have 5: "list_ex (tool_start_for (JInt 1)) tool_then_usage_events"
    by blast
  from two_tools_eval i 1 tool_then_usage_eval 2 3 d 4 p 5 show ?thesis
    by (intro conjI)
qed

theorem two_starts_at_index_0_counterexample:
  "stream_generator ''id1'' example_payload text_then_tool_stream = (text_then_tool_events, None)
   \<and> JInt 0 \<in> set (stream_indices text_then_tool_stream)
   \<and> length (filter (block_start_for (JInt 0)) text_then_tool_events) = 2
   \<and> stream_generator ''id1'' example_payload tool_then_usage_stream
       = (tool_then_usage_events, Some IndexError)
   \<and> JInt 1 \<in> set (stream_indices tool_then_usage_stream)
   \<and> filter (stop_for (JInt 1)) tool_then_usage_events = []
   \<and> stream_generator ''id1'' example_payload usage_then_tool_stream
       = ([MessageStart ''id1'' (JStr ''m1''), Ping], Some IndexError)
   \<and> JInt 1 \<in> set (stream_indices usage_then_tool_stream)"
proof -
  have 1: "length (filter (block_start_for (JInt 0)) text_then_tool_events) = 2"
    by code_simp
  have 2: "stream_generator ''id1'' example_payload tool_then_usage_stream
       = (tool_then_usage_events, Some IndexError)"
    by code_simp
  have "stream_indices tool_then_usage_stream = [JInt 1]"
    by code_simp
  then have 3: "JInt 1 \<in> set (stream_indices tool_then_usage_stream)" by simp
  have 4: "filter (stop_for (JInt 1)) tool_then_usage_events = []"
    by code_simp
  have 5: "stream_generator ''id1'' example_payload usage_then_tool_stream
       = ([MessageStart ''id1'' (JStr ''m1''), Ping], Some IndexError)"
    by code_simp
  have "stream_indices usage_then_tool_stream = [JInt 1]"
    by code_simp
  then have 6: "JInt 1 \<in> set (stream_indices usage_then_tool_stream)" by simp
  have 0: "JInt 0 \<in> set (stream_indices text_then_tool_stream)"
    by (simp add: text_then_tool_indices)
  from text_then_tool_eval 0 1 2 3 4 5 6 show ?thesis
    by (intro conjI)
qed

theorem stops_close_opened_blocks_witness:
  "stream_generator ''id1'' example_payload two_tools_stream = (two_tools_events, None)
   \<and> (\<exists>model body stop_reason output_tokens.
         two_tools_events = [MessageStart ''id1'' model, Ping] @ body
           @ map ContentBlockStop (closing_indices body)
           @ [MessageDelta stop_reason output_tokens, MessageStop]
         \<and> list_all is_start_or_delta body)"
  using two_tools_eval stops_close_opened_blocks[OF two_tools_eval]
  by (intro conjI)

theorem stops_not_ascending_counterexample:
  "stream_generator ''id1'' example_payload two_tools_stream = (two_tools_events, None)
   \<and> two_tools_events ! 7 = ContentBlockStop (JInt 2)
   \<and> two_tools_events ! 8 = ContentBlockStop (JInt 1)
   \<and> stream_generator ''id1'' example_payload [Done]
       = ([MessageStart ''id1'' (JStr ''m1''), Ping, MessageDelta ''end_turn'' (JInt 0), MessageStop],
          None)
   \<and> stream_generator ''id1'' example_payload list_finish_reason_stream
       = (list_finish_reason_events, Some TypeError)"
proof -
  have "stream_generator ''id1'' example_payload [Done]
       = ([MessageStart ''id1'' (JStr ''m1''), Ping, MessageDelta ''end_turn'' (JInt 0), MessageStop],
          None)"
    by code_simp
  moreover have "stream_generator ''id1'' example_payload list_finish_reason_stream
       = (list_finish_reason_events, Some TypeError)"
    by code_simp
  ultimately show ?thesis
    using two_tools_eval by (simp add: two_tools_events_def)
qed

theorem tool_events_carry_backend_index_witness:
  "JInt 0 \<notin> set (stream_indices two_tools_stream)
   \<and> list_all (\<lambda>e. tool_event_index e \<noteq> Some (JInt 0))
        (fst (stream_generator ''id1'' example_payload two_tools_stream))"
proof -
  have n: "JInt 0 \<notin> set (stream_indices two_tools_stream)"
    by (simp add: two_tools_indices)
  with tool_events_carry_backend_index[of "''id1''" example_payload two_tools_stream]
  have "\<forall>e\<in>set (fst (stream_generator ''id1'' example_payload two_tools_stream)).
          tool_event_index e \<noteq> Some (JInt 0)"
    by blast
  with n show ?thesis by (simp add: list_all_iff)
qed

theorem tool_block_at_index_0_counterexample:
  "ContentBlockStart (JInt 0) (ToolUseBlock (JStr ''call'') (JStr ''f''))
     \<in> set (fst (stream_generator ''id1'' example_payload text_then_tool_stream))
   \<and> ContentBlockDelta (JInt 0) (InputJsonDelta ''{}'')
     \<in> set (fst (stream_generator ''id1'' example_payload text_then_tool_stream))"
  by (simp add: text_then_tool_eval text_then_tool_events_def)

theorem stop_reason_of_last_parsed_chunk_witness:
  "stream_generator ''id1'' example_payload text_then_tool_stream = (text_then_tool_events, None)
   \<and> (\<exists>front stop_reason output_tokens.
         text_then_tool_events = front @ [MessageDelta stop_reason output_tokens, MessageStop]
         \<and> bind_err (finish_reason_of (last_parsed (JDict []) text_then_tool_stream)) map_stop_reason
             = Inr stop_reason)"
  using text_then_tool_eval stop_reason_of_last_parsed_chunk[OF text_then_tool_eval]
  by (intro conjI)

theorem finish_reason_erased_counterexample:
  "stream_generator ''id1'' example_payload length_then_absent_stream
     = (length_then_absent_events, None)
   \<and> length_then_absent_events ! 5 = MessageDelta ''end_turn'' (JInt 0)
   \<and> last_present_finish_reason JNull (processed_chunks length_then_absent_stream) = JStr ''length''
   \<and> map_stop_reason (JStr ''length'') = Inr ''max_tokens''"
proof -
  have "last_present_finish_reason JNull (processed_chunks length_then_absent_stream) = JStr ''length''"
    by code_simp
  moreover have "map_stop_reason (JStr ''length'') = Inr ''max_tokens''"
    by code_simp
  ultimately show ?thesis
    using length_then_absent_eval by (simp add: length_then_absent_events_def)
qed

end
